theory Spec2Isabelle
  imports Main "HOL-Library.Word"
begin

unbundle bit_operations_syntax

section \<open>libacrypt: the cipher of \<^verbatim>\<open>src/crypt.c\<close>\<close>

text \<open>
  Memory is a flat map from addresses to bytes, shared by every buffer the
  caller passes in, so that two pointers may name the same bytes.  Bounds and
  lifetimes of blocks are not tracked: a read or write at an address is a read
  or write of that byte, as on the machine.  What the model does track as
  undefined is the arithmetic: a remainder by zero and a signed overflow.
\<close>

type_synonym u8 = "8 word"
type_synonym addr = nat
type_synonym memory = "addr \<Rightarrow> u8"

datatype fault = Division_By_Zero | Signed_Overflow | Double_Free

definition INT_MAX :: int where
  "INT_MAX = 2147483647"

definition ENOENT :: int where "ENOENT = 2"
definition EAGAIN :: int where "EAGAIN = 11"
definition ENOMEM :: int where "ENOMEM = 12"
definition EINVAL :: int where "EINVAL = 22"

text \<open>
  The operator \<^verbatim>\<open>%\<close> of C truncates towards zero: the result has the sign of
  the dividend.  It is only used here with a divisor known to be non-zero; the
  one place where the divisor may be zero checks it first.
\<close>

definition c_rem :: "int \<Rightarrow> int \<Rightarrow> int" where
  "c_rem a b = sgn a * (\<bar>a\<bar> mod \<bar>b\<bar>)"

text \<open>
  \<^verbatim>\<open>struct crypt_context\<close>: the address of the caller's key and its length.
  The structure is read and never assigned through the pointer the function
  receives, so it is passed as a value.
\<close>

record crypt_context =
  key :: addr
  keylen :: int

text \<open>
  The loop of \<^verbatim>\<open>crypt_buffer\<close> (lines 72 to 80).  \<open>k\<close> is the working copy of
  the key, indexed like the C array, \<open>i\<close> the cursor, \<open>cnt\<close> the position.
  Line 74 updates \<open>k[i]\<close> (the sum is an \<^verbatim>\<open>int\<close>, the store truncates it to a
  byte), line 75 writes the output byte, line 79 advances the cursor with a
  remainder by \<open>keylen\<close>, and the loop header increments the \<^verbatim>\<open>int\<close> counter.
\<close>

function crypt_loop ::
  "int \<Rightarrow> nat \<Rightarrow> addr \<Rightarrow> addr \<Rightarrow> memory \<Rightarrow> (int \<Rightarrow> u8) \<Rightarrow> int \<Rightarrow> nat \<Rightarrow> fault + memory"
where
  "crypt_loop klen len output input h k i cnt =
     (if cnt < len then
        (if INT_MAX < uint (k i) + i then Inl Signed_Overflow
         else
           let k' = k(i := word_of_int (c_rem (uint (k i) + i) 256));
               h' = h(output + cnt := h (input + cnt) XOR k' i)
           in if klen = 0 then Inl Division_By_Zero
              else if int cnt = INT_MAX then Inl Signed_Overflow
              else crypt_loop klen len output input h' k' (c_rem (i + 1) klen) (cnt + 1))
      else Inr h)"
  by pat_completeness auto
termination
  by (relation "measure (\<lambda>(klen, len, output, input, h, k, i, cnt). len - cnt)") auto

declare crypt_loop.simps [simp del]

text \<open>
  \<^verbatim>\<open>crypt_buffer\<close> (lines 39 to 88).  The two calls of \<^verbatim>\<open>malloc\<close> succeed or
  fail as the environment decides (\<open>ctx_ok\<close>, \<open>key_ok\<close>); a negative \<open>keylen\<close>
  converts to a size no allocator can satisfy.  The block obtained for the key
  holds the bytes \<open>fresh\<close> until \<^verbatim>\<open>memcpy\<close> overwrites its first \<open>keylen\<close> bytes
  with the caller's key.  The result is the value returned and the memory the
  caller sees afterwards.
\<close>

definition crypt_buffer ::
  "bool \<Rightarrow> bool \<Rightarrow> (int \<Rightarrow> u8) \<Rightarrow> memory \<Rightarrow> crypt_context \<Rightarrow> addr \<Rightarrow> addr \<Rightarrow> nat
     \<Rightarrow> fault + int \<times> memory"
where
  "crypt_buffer ctx_ok key_ok fresh h context output input len =
     (if \<not> ctx_ok then Inr (- ENOMEM, h)
      else if \<not> key_ok \<or> keylen context < 0 then Inr (- ENOMEM, h)
      else
        let k = (\<lambda>j. if 0 \<le> j \<and> j < keylen context
                      then h (key context + nat j) else fresh j)
        in case crypt_loop (keylen context) len output input h k 0 0 of
             Inl f \<Rightarrow> Inl f
           | Inr h' \<Rightarrow> Inr (0, h'))"

text \<open>The bytes of a buffer, read from memory.\<close>

definition bytes_at :: "memory \<Rightarrow> addr \<Rightarrow> nat \<Rightarrow> u8 list" where
  "bytes_at h a n = map (\<lambda>c. h (a + c)) [0..<n]"

subsection \<open>The transform as the specification words it\<close>

text \<open>
  A working copy \<open>w\<close> of the key and a cursor \<open>i\<close>; for each input byte: update
  \<open>w[i] = (w[i] + i) mod 256\<close>, emit the input byte XOR \<open>w[i]\<close>, advance
  \<open>i = (i + 1) mod keylen\<close>.
\<close>

fun transform_from :: "u8 list \<Rightarrow> nat \<Rightarrow> u8 list \<Rightarrow> u8 list" where
  "transform_from w i [] = []"
| "transform_from w i (p # ps) =
     (let w' = w[i := word_of_nat ((unat (w ! i) + i) mod 256)]
      in (p XOR w' ! i) # transform_from w' ((i + 1) mod length w) ps)"

definition transform :: "u8 list \<Rightarrow> u8 list \<Rightarrow> u8 list" where
  "transform k p = transform_from k 0 p"

text \<open>
  A caller of the library that keeps the key, the input and the output in three
  buffers one after the other, with both allocations succeeding; it returns
  the value of \<^verbatim>\<open>crypt_buffer\<close> and the bytes found in the output buffer.
\<close>

definition crypt_call :: "u8 list \<Rightarrow> u8 list \<Rightarrow> fault + int \<times> u8 list" where
  "crypt_call k p =
     (let h = (\<lambda>a. if a < length k then k ! a
                    else if a < length k + length p then p ! (a - length k) else 0)
      in case crypt_buffer True True (\<lambda>j. 0) h \<lparr>key = 0, keylen = int (length k)\<rparr>
                (length k + length p) (length k) (length p) of
           Inl f \<Rightarrow> Inl f
         | Inr (r, h') \<Rightarrow> Inr (r, bytes_at h' (length k + length p) (length p)))"

text \<open>
  A stream cut into blocks of the given lengths, and the blocks sent through
  \<^verbatim>\<open>crypt_buffer\<close> one call each, stopping at the first call that fails.
\<close>

fun split_blocks :: "nat list \<Rightarrow> 'a list \<Rightarrow> 'a list list" where
  "split_blocks [] xs = []"
| "split_blocks (n # ns) xs = take n xs # split_blocks ns (drop n xs)"

fun crypt_blocks :: "u8 list \<Rightarrow> u8 list list \<Rightarrow> u8 list list option" where
  "crypt_blocks k [] = Some []"
| "crypt_blocks k (b # bs) =
     (case crypt_call k b of
        Inl f \<Rightarrow> None
      | Inr (r, c) \<Rightarrow> if r < 0 then None else map_option ((#) c) (crypt_blocks k bs))"

section \<open>The command line program of \<^verbatim>\<open>src/crypt_main.c\<close>\<close>

definition MAX_INPUT_SIZE :: int where "MAX_INPUT_SIZE = 1024"
definition MAX_READ_RETRY :: nat where "MAX_READ_RETRY = 15"
definition EOF :: int where "EOF = - 1"

text \<open>
  \<^verbatim>\<open>struct user_data_args_s\<close>.  The three names are null or a string, the three
  buffers are addresses.  The field \<^verbatim>\<open>keylen\<close> is called \<open>args_keylen\<close> here,
  since the context has a field of the same name.
\<close>

record user_data_args_s =
  fd_in :: int
  fd_key :: int
  fd_out :: int
  filelen :: int
  args_keylen :: int
  ispipe :: bool
  kfile :: "string option"
  ifile :: "string option"
  ofile :: "string option"
  kbuf :: addr
  ibuf :: addr
  obuf :: addr

subsection \<open>The operating system\<close>

text \<open>
  What the program sees of its environment: memory, named files with their
  permission bits, the descriptor table (each descriptor names a file and holds
  an offset), the descriptor the next \<^verbatim>\<open>open\<close> returns, the file creation mask
  and the characters still to come on standard input.  Descriptor 1 receives
  bytes on two ways, which the state keeps apart: \<open>stdout\<close> holds the bytes the
  calls \<^verbatim>\<open>write(1, ...)\<close> have delivered, in order; \<open>printed\<close> holds the texts
  given to \<^verbatim>\<open>printf\<close>, in order, which the C library keeps in its buffer and
  delivers to descriptor 1 when it flushes, so that their place among the
  bytes of \<open>stdout\<close> is not fixed by the program.  The environment decides how many
  bytes each call of \<^verbatim>\<open>read\<close> and \<^verbatim>\<open>write\<close> transfers at most (\<open>reads\<close>,
  \<open>writes\<close>: one entry per call, negative for a failing call, no entry for a
  call that transfers all it can), which paths cannot be opened (\<open>denied\<close>) and
  which calls of \<^verbatim>\<open>malloc\<close> succeed.  \<open>read_log\<close> and \<open>write_log\<close> record the
  calls made, latest first: the value each \<^verbatim>\<open>read\<close> returned, and for each
  \<^verbatim>\<open>write\<close> the descriptor, the count requested, the value returned and the
  bytes accepted.
\<close>

type_synonym mode_t = "12 word"

record inode =
  bytes :: "u8 list"
  perm :: mode_t

record descr =
  path :: string
  pos :: nat

record write_call =
  w_fd :: int
  w_count :: nat
  w_ret :: int
  w_data :: "u8 list"

record world =
  mem :: memory
  fs :: "string \<Rightarrow> inode option"
  denied :: "string \<Rightarrow> bool"
  fdt :: "int \<Rightarrow> descr option"
  next_fd :: nat
  mask :: mode_t
  stdin :: "u8 list"
  stdout :: "u8 list"
  printed :: "string list"
  reads :: "int list"
  writes :: "int list"
  mallocs :: "bool list"
  fresh :: "int \<Rightarrow> u8"
  freed :: bool
  read_log :: "int list"
  write_log :: "write_call list"

definition store_bytes :: "memory \<Rightarrow> addr \<Rightarrow> u8 list \<Rightarrow> memory" where
  "store_bytes h a bs = (\<lambda>x. if a \<le> x \<and> x < a + length bs then bs ! (x - a) else h x)"

text \<open>The conversion of an \<^verbatim>\<open>int\<close> to \<^verbatim>\<open>size_t\<close>, and of a file size to \<^verbatim>\<open>int\<close>.\<close>

definition size_t_of :: "int \<Rightarrow> nat" where
  "size_t_of n = nat (n mod 2 ^ 64)"

definition int_of_off :: "nat \<Rightarrow> int" where
  "int_of_off n = sint (word_of_nat n :: 32 word)"

definition malloc :: "world \<Rightarrow> bool \<times> world" where
  "malloc w = (case mallocs w of [] \<Rightarrow> (True, w) | b # bs \<Rightarrow> (b, w\<lparr>mallocs := bs\<rparr>))"

definition getchar :: "world \<Rightarrow> int \<times> world" where
  "getchar w = (case stdin w of [] \<Rightarrow> (EOF, w) | c # cs \<Rightarrow> (uint c, w\<lparr>stdin := cs\<rparr>))"

definition sys_open_rdonly :: "string \<Rightarrow> world \<Rightarrow> int \<times> world" where
  "sys_open_rdonly name w =
     (if denied w name \<or> fs w name = None then (- 1, w)
      else (int (next_fd w),
            w\<lparr>fdt := (fdt w)(int (next_fd w) \<mapsto> \<lparr>path = name, pos = 0\<rparr>),
              next_fd := next_fd w + 1\<rparr>))"

text \<open>\<^verbatim>\<open>open\<close> with \<^verbatim>\<open>O_RDWR | O_TRUNC | O_CREAT\<close> and a mode.\<close>

definition sys_open_creat_trunc :: "string \<Rightarrow> mode_t \<Rightarrow> world \<Rightarrow> int \<times> world" where
  "sys_open_creat_trunc name m w =
     (if denied w name then (- 1, w)
      else
        let f = (case fs w name of
                   None \<Rightarrow> \<lparr>bytes = [], perm = m AND NOT (mask w)\<rparr>
                 | Some f \<Rightarrow> f\<lparr>bytes := []\<rparr>)
        in (int (next_fd w),
            w\<lparr>fs := (fs w)(name \<mapsto> f),
              fdt := (fdt w)(int (next_fd w) \<mapsto> \<lparr>path = name, pos = 0\<rparr>),
              next_fd := next_fd w + 1\<rparr>))"

text \<open>The mode \<^verbatim>\<open>0666\<close> (octal): read and write for user, group and others.\<close>

definition mode_0666 :: mode_t where
  "mode_0666 = 0x1B6"

definition sys_umask :: "mode_t \<Rightarrow> world \<Rightarrow> world" where
  "sys_umask m w = w\<lparr>mask := m\<rparr>"

definition sys_fstat :: "int \<Rightarrow> world \<Rightarrow> nat option" where
  "sys_fstat fd w =
     (case fdt w fd of
        None \<Rightarrow> None
      | Some d \<Rightarrow> (case fs w (path d) of None \<Rightarrow> None | Some f \<Rightarrow> Some (length (bytes f))))"

definition sys_close :: "int \<Rightarrow> world \<Rightarrow> world" where
  "sys_close fd w = w\<lparr>fdt := (fdt w)(fd := None)\<rparr>"

text \<open>
  \<^verbatim>\<open>read\<close>: the bytes a call delivers, or nothing when it fails.  The call
  fails when the environment says so or the descriptor names no file; it
  delivers at most \<open>count\<close> bytes, at most what the environment allows and at
  most what the file holds from the offset on.
\<close>

definition read_data :: "int \<Rightarrow> nat \<Rightarrow> world \<Rightarrow> u8 list option" where
  "read_data fd count w =
     (let lim = (case reads w of [] \<Rightarrow> int count | r # rs \<Rightarrow> r)
      in if lim < 0 then None
         else case fdt w fd of
           None \<Rightarrow> None
         | Some d \<Rightarrow>
             (case fs w (path d) of
                None \<Rightarrow> None
              | Some f \<Rightarrow> Some (take (min count (nat lim)) (drop (pos d) (bytes f)))))"

definition sys_read :: "int \<Rightarrow> addr \<Rightarrow> nat \<Rightarrow> world \<Rightarrow> int \<times> world" where
  "sys_read fd buf count w =
     (case read_data fd count w of
        None \<Rightarrow> (- 1, w\<lparr>reads := tl (reads w), read_log := - 1 # read_log w\<rparr>)
      | Some data \<Rightarrow>
          (int (length data),
           w\<lparr>mem := store_bytes (mem w) buf data,
             fdt := (fdt w)(fd := map_option (\<lambda>d. d\<lparr>pos := pos d + length data\<rparr>) (fdt w fd)),
             reads := tl (reads w),
             read_log := int (length data) # read_log w\<rparr>))"

text \<open>
  \<^verbatim>\<open>write\<close>: the number of bytes a call accepts, or nothing when it fails.
  Descriptor 1 is standard output; any other descriptor must name a file.
\<close>

definition write_count :: "int \<Rightarrow> nat \<Rightarrow> world \<Rightarrow> nat option" where
  "write_count fd count w =
     (let lim = (case writes w of [] \<Rightarrow> int count | r # rs \<Rightarrow> r)
      in if lim < 0 then None
         else if fd = 1 then Some (min count (nat lim))
         else case fdt w fd of
           None \<Rightarrow> None
         | Some d \<Rightarrow>
             (case fs w (path d) of
                None \<Rightarrow> None
              | Some f \<Rightarrow> Some (min count (nat lim))))"

text \<open>Bytes written into a file at an offset; a gap before the offset reads as zeros.\<close>

definition put_bytes :: "nat \<Rightarrow> u8 list \<Rightarrow> inode \<Rightarrow> inode" where
  "put_bytes off data f =
     (let old = bytes f @ replicate (off - length (bytes f)) 0
      in f\<lparr>bytes := take off old @ data @ drop (off + length data) old\<rparr>)"

definition sys_write :: "int \<Rightarrow> addr \<Rightarrow> nat \<Rightarrow> world \<Rightarrow> int \<times> world" where
  "sys_write fd buf count w =
     (case write_count fd count w of
        None \<Rightarrow>
          (- 1, w\<lparr>writes := tl (writes w),
                  write_log := \<lparr>w_fd = fd, w_count = count, w_ret = - 1, w_data = []\<rparr>
                                 # write_log w\<rparr>)
      | Some n \<Rightarrow>
          let data = bytes_at (mem w) buf n;
              call = \<lparr>w_fd = fd, w_count = count, w_ret = int n, w_data = data\<rparr>
          in (int n,
              if fd = 1 then
                w\<lparr>stdout := stdout w @ data, writes := tl (writes w),
                  write_log := call # write_log w\<rparr>
              else
                w\<lparr>fs := (case fdt w fd of
                            None \<Rightarrow> fs w
                          | Some d \<Rightarrow>
                              (fs w)(path d := map_option (put_bytes (pos d) data) (fs w (path d)))),
                  fdt := (fdt w)(fd := map_option (\<lambda>d. d\<lparr>pos := pos d + n\<rparr>) (fdt w fd)),
                  writes := tl (writes w),
                  write_log := call # write_log w\<rparr>))"

subsection \<open>The functions of the program\<close>

text \<open>
  \<^verbatim>\<open>free_close_alloc\<close> (lines 205 to 251) releases the names and the three
  buffers and closes the descriptors that are not \<open>-1\<close>.  The pointers are not
  reset, so a second call releases the same blocks again.
\<close>

definition free_close_alloc :: "user_data_args_s \<Rightarrow> world \<Rightarrow> fault + world" where
  "free_close_alloc args w =
     (if freed w then Inl Double_Free
      else
        let w1 = w\<lparr>freed := True\<rparr>;
            w2 = (if fd_in args \<noteq> - 1 then sys_close (fd_in args) w1 else w1);
            w3 = (if fd_out args \<noteq> - 1 then sys_close (fd_out args) w2 else w2);
            w4 = (if fd_key args \<noteq> - 1 then sys_close (fd_key args) w3 else w3)
        in Inr w4)"

text \<open>The pair \<^verbatim>\<open>free_close_alloc(args); return r;\<close> found on the error paths.\<close>

definition free_and_return :: "user_data_args_s \<Rightarrow> int \<Rightarrow> world \<Rightarrow> fault + int \<times> world" where
  "free_and_return args r w =
     (case free_close_alloc args w of Inl f \<Rightarrow> Inl f | Inr w' \<Rightarrow> Inr (r, w'))"

text \<open>
  The loop of \<^verbatim>\<open>read_input\<close> (lines 274 to 289): \<open>buf\<close> is the moving pointer,
  \<open>i\<close> the count.  The character is stored and counted before the count is
  compared with \<open>maxsize\<close>.
\<close>

function read_input_loop :: "int \<Rightarrow> bool \<Rightarrow> addr \<Rightarrow> int \<Rightarrow> world \<Rightarrow> addr \<times> int \<times> world" where
  "read_input_loop maxsize pipe buf i w =
     (case getchar w of
        (ch, w1) \<Rightarrow>
          if ch \<noteq> EOF then
            (if ch = 10 \<and> \<not> pipe then (buf, i, w1)
             else
               let w2 = w1\<lparr>mem := (mem w1)(buf := word_of_int ch)\<rparr>
               in if i + 1 \<ge> maxsize then (buf + 1, i + 1, w2)
                  else read_input_loop maxsize pipe (buf + 1) (i + 1) w2)
          else (buf, i, w1))"
  by pat_completeness auto
termination
  by (relation "measure (\<lambda>(maxsize, pipe, buf, i, w). length (stdin w))")
     (auto simp: getchar_def EOF_def split: list.splits)

declare read_input_loop.simps [simp del]

text \<open>
  \<^verbatim>\<open>read_input\<close> (lines 262 to 296).  When not in pipe mode the prompt is
  given to \<^verbatim>\<open>printf\<close>, that is, to the buffer of standard output (\<open>printed\<close>).
  After the loop, line 293 assigns the character \<^verbatim>\<open>'\0'\<close> to the local pointer
  \<open>buf\<close> itself, which makes it a null pointer; nothing is stored through it,
  and the pointer is not used again.
\<close>

definition read_input :: "addr \<Rightarrow> int \<Rightarrow> bool \<Rightarrow> world \<Rightarrow> int \<times> world" where
  "read_input buf maxsize pipe w =
     (let w0 = (if \<not> pipe then w\<lparr>printed := printed w @ [''Type the text to be encrypted: '']\<rparr>
                else w)
      in case read_input_loop maxsize pipe buf 0 w0 of
           (buf1, i, w1) \<Rightarrow> let buf2 = (0 :: addr) in (i, w1))"

text \<open>
  \<^verbatim>\<open>file_size\<close> (lines 306 to 342) returns its value and the descriptor it
  stores through \<open>fd\<close>.
\<close>

definition file_size :: "string \<Rightarrow> world \<Rightarrow> int \<times> int \<times> world" where
  "file_size filename w =
     (if filename = ''stdin'' then (INT_MAX, 0, w)
      else case sys_open_rdonly filename w of
        (fd, w1) \<Rightarrow>
          if fd < 0 then (- ENOENT, fd, w1)
          else (case sys_fstat fd w1 of
                  None \<Rightarrow> (- ENOENT, fd, w1)
                | Some sz \<Rightarrow> (int_of_off sz, fd, w1)))"

text \<open>
  The retry loop of \<^verbatim>\<open>load_file\<close> (lines 374 to 385).  Every attempt asks for
  \<open>maxsize\<close> bytes at the start of the buffer.
\<close>

function load_file_loop :: "int \<Rightarrow> addr \<Rightarrow> int \<Rightarrow> int \<Rightarrow> nat \<Rightarrow> world \<Rightarrow> int \<times> world" where
  "load_file_loop fd buffer maxsize ret retry w =
     (if ret \<noteq> maxsize \<and> retry > 0 then
        (case sys_read fd buffer (size_t_of maxsize) w of
           (ret', w') \<Rightarrow>
             if retry - 1 = 0 \<and> ret' < 0 then (- EAGAIN, w')
             else load_file_loop fd buffer maxsize ret' (retry - 1) w')
      else (ret, w))"
  by pat_completeness auto
termination
  by (relation "measure (\<lambda>(fd, buffer, maxsize, ret, retry, w). retry)") auto

declare load_file_loop.simps [simp del]

definition load_file :: "user_data_args_s \<Rightarrow> int \<Rightarrow> addr \<Rightarrow> int \<Rightarrow> world \<Rightarrow> int \<times> world" where
  "load_file args fd buffer maxsize w =
     (if fd = 0 then read_input buffer maxsize (ispipe args) w
      else load_file_loop fd buffer maxsize 0 MAX_READ_RETRY w)"

text \<open>
  \<^verbatim>\<open>store_file\<close> (lines 400 to 449) returns its value and the structure,
  whose \<open>fd_out\<close> it sets when it opens the output file.  The standard output
  branch writes from \<open>args->obuf\<close>, the other from \<open>buf\<close>.
\<close>

definition store_file ::
  "user_data_args_s \<Rightarrow> addr \<Rightarrow> int \<Rightarrow> world \<Rightarrow> fault + int \<times> user_data_args_s \<times> world"
where
  "store_file args buf maxsize w =
     (case ofile args of
        None \<Rightarrow>
          (case sys_write 1 (obuf args) (size_t_of maxsize) w of
             (ret, w1) \<Rightarrow>
               if ret < 0 then
                 (case free_close_alloc args w1 of
                    Inl f \<Rightarrow> Inl f
                  | Inr w2 \<Rightarrow> Inr (- EAGAIN, args, w2))
               else Inr (0, args, w1))
      | Some name \<Rightarrow>
          (case (if fd_out args = - 1 then
                   (case sys_open_creat_trunc name mode_0666 (sys_umask 0 w) of
                      (fd, w1) \<Rightarrow> (fd < 0, args\<lparr>fd_out := fd\<rparr>, w1))
                 else (False, args, w)) of
             (open_failed, args1, w1) \<Rightarrow>
               if open_failed then Inr (- EAGAIN, args1, w1)
               else (case sys_write (fd_out args1) buf (size_t_of maxsize) w1 of
                       (ret, w2) \<Rightarrow>
                         if ret < 0 then Inr (- EAGAIN, args1, w2)
                         else Inr (0, args1, w2))))"

text \<open>
  The call of \<^verbatim>\<open>crypt_buffer\<close> from the program: its two allocations are asked
  of the environment, the second only when the first has succeeded.  The
  length is converted from \<^verbatim>\<open>int\<close> to \<^verbatim>\<open>unsigned int\<close>.
\<close>

definition call_crypt_buffer ::
  "crypt_context \<Rightarrow> addr \<Rightarrow> addr \<Rightarrow> int \<Rightarrow> world \<Rightarrow> fault + int \<times> world"
where
  "call_crypt_buffer context output input len w =
     (case malloc w of
        (ok1, w1) \<Rightarrow>
          (case (if ok1 then malloc w1 else (False, w1)) of
             (ok2, w2) \<Rightarrow>
               (case crypt_buffer ok1 ok2 (fresh w) (mem w) context output input
                       (nat (len mod 2 ^ 32)) of
                  Inl f \<Rightarrow> Inl f
                | Inr (r, h') \<Rightarrow> Inr (r, w2\<lparr>mem := h'\<rparr>))))"

text \<open>The loop of \<^verbatim>\<open>main\<close> (lines 560 to 605).\<close>

function main_loop ::
  "crypt_context \<Rightarrow> user_data_args_s \<Rightarrow> int \<Rightarrow> world \<Rightarrow> fault + int \<times> world"
where
  "main_loop context args remaining w =
     (if remaining > 0 then
        let blocks_read = (if remaining > MAX_INPUT_SIZE then MAX_INPUT_SIZE else remaining)
        in case load_file args (fd_in args) (ibuf args) blocks_read w of
             (nread, w1) \<Rightarrow>
               if nread < blocks_read \<and> fd_in args \<noteq> 0 then
                 free_and_return args (- EAGAIN) w1
               else
                 (case call_crypt_buffer context (obuf args) (ibuf args) nread w1 of
                    Inl f \<Rightarrow> Inl f
                  | Inr (ret, w2) \<Rightarrow>
                      if ret < 0 then free_and_return args (- EAGAIN) w2
                      else
                        (case store_file args (obuf args) nread w2 of
                           Inl f \<Rightarrow> Inl f
                         | Inr (ret', args', w3) \<Rightarrow>
                             if ret' < 0 then free_and_return args' (- EAGAIN) w3
                             else if fd_in args' = 0 \<and> nread < MAX_INPUT_SIZE then Inr (0, w3)
                             else main_loop context args' (remaining - blocks_read) w3))
      else Inr (0, w))"
  by pat_completeness auto
termination
  by (relation "measure (\<lambda>(context, args, remaining, w). nat remaining)")
     (auto simp: MAX_INPUT_SIZE_def)

declare main_loop.simps [simp del]

text \<open>The loading of the key from a file (lines 498 to 523).\<close>

definition main_load_key ::
  "user_data_args_s \<Rightarrow> world \<Rightarrow> fault + int \<times> user_data_args_s \<times> world"
where
  "main_load_key args w =
     (case kfile args of
        None \<Rightarrow> Inr (0, args, w)
      | Some name \<Rightarrow>
          (case file_size name w of
             (len, fd, w1) \<Rightarrow>
               let args1 = args\<lparr>args_keylen := len, fd_key := fd\<rparr>
               in if args_keylen args1 < 0 then
                    (case free_close_alloc args1 w1 of
                       Inl f \<Rightarrow> Inl f
                     | Inr w2 \<Rightarrow> Inr (- EAGAIN, args1, w2))
                  else
                    (case load_file args1 (fd_key args1) (kbuf args1) (args_keylen args1) w1 of
                       (nread, w2) \<Rightarrow>
                         if nread < 0 then
                           (case free_close_alloc args1 w2 of
                              Inl f \<Rightarrow> Inl f
                            | Inr w3 \<Rightarrow> Inr (- EAGAIN, args1, w3))
                         else Inr (0, args1, w2))))"

text \<open>
  \<^verbatim>\<open>main\<close> from the check of the key on (lines 488 to 608).  \<open>args\<close> is the
  structure as \<^verbatim>\<open>init_alloc_args\<close> and \<^verbatim>\<open>parse_args\<close> leave it: the buffers
  allocated, the options of the command line stored, a key given with \<^verbatim>\<open>-k\<close>
  copied into \<open>kbuf\<close>.
\<close>

definition main :: "user_data_args_s \<Rightarrow> world \<Rightarrow> fault + int \<times> world" where
  "main args w =
     (if args_keylen args = 0 \<and> kfile args = None then Inr (- EINVAL, w)
      else case main_load_key args w of
        Inl f \<Rightarrow> Inl f
      | Inr (ret, args1, w1) \<Rightarrow>
          if ret < 0 then Inr (ret, w1)
          else (case malloc w1 of
                  (ok, w2) \<Rightarrow>
                    if \<not> ok then free_and_return args1 (- EAGAIN) w2
                    else
                      let context = \<lparr>key = kbuf args1, keylen = args_keylen args1\<rparr>;
                          name = (case ifile args1 of None \<Rightarrow> ''stdin'' | Some n \<Rightarrow> n);
                          args2 = args1\<lparr>ifile := Some name\<rparr>
                      in case file_size name w2 of
                           (len, fd, w3) \<Rightarrow>
                             let args3 = args2\<lparr>filelen := len, fd_in := fd\<rparr>
                             in if filelen args3 < 0 then free_and_return args3 (- EAGAIN) w3
                                else main_loop context args3 (filelen args3) w3))"

subsection \<open>Notions used in the statements\<close>


text \<open>
  The output file \<open>name\<close> is open on descriptor \<open>fd\<close>, holds the bytes \<open>data\<close>
  with the permission bits \<open>pm\<close>, and the offset of the descriptor is at its
  end.
\<close>

definition sink_at :: "string \<Rightarrow> int \<Rightarrow> u8 list \<Rightarrow> mode_t \<Rightarrow> world \<Rightarrow> bool" where
  "sink_at name fd data pm w \<longleftrightarrow>
     fd \<noteq> 1 \<and> fdt w fd = Some \<lparr>path = name, pos = length data\<rparr> \<and>
     fs w name = Some \<lparr>bytes = data, perm = pm\<rparr>"




subsection \<open>States used as examples\<close>

definition zero_memory :: memory where
  "zero_memory = (\<lambda>a. 0)"

definition zero_block :: "int \<Rightarrow> u8" where
  "zero_block = (\<lambda>j. 0)"

text \<open>The key \<^verbatim>\<open>"AB"\<close> at address 0 and the input \<^verbatim>\<open>"AA"\<close> at address 10.\<close>

definition ab_memory :: memory where
  "ab_memory = zero_memory(0 := 0x41, 1 := 0x42, 10 := 0x41, 11 := 0x41)"

definition ab_context :: crypt_context where
  "ab_context = \<lparr>key = 0, keylen = 2\<rparr>"

text \<open>One key byte \<^verbatim>\<open>"A"\<close> at address 0, one byte \<^verbatim>\<open>"A"\<close> at address 10.\<close>

definition a_memory :: memory where
  "a_memory = zero_memory(0 := 0x41, 10 := 0x41)"

definition a_context :: crypt_context where
  "a_context = \<lparr>key = 0, keylen = 1\<rparr>"

text \<open>
  A world with no files, nothing to read, descriptors from 3 on, the mask
  \<^verbatim>\<open>022\<close> and an environment that grants every request; and the structure as
  \<^verbatim>\<open>init_alloc_args\<close> leaves it, with the three buffers at fixed addresses.
\<close>

definition base_world :: world where
  "base_world =
     \<lparr>mem = zero_memory, fs = Map.empty, denied = (\<lambda>n. False), fdt = Map.empty,
      next_fd = 3, mask = 0x12, stdin = [], stdout = [], printed = [], reads = [],
      writes = [], mallocs = [], fresh = zero_block, freed = False, read_log = [],
      write_log = []\<rparr>"

definition base_args :: user_data_args_s where
  "base_args =
     \<lparr>fd_in = - 1, fd_key = - 1, fd_out = - 1, filelen = 0, args_keylen = 0, ispipe = False,
      kfile = None, ifile = None, ofile = None, kbuf = 1000, ibuf = 2000, obuf = 4000\<rparr>"

text \<open>Two characters \<^verbatim>\<open>"ab"\<close> on standard input; the byte after them in the buffer is \<^verbatim>\<open>'X'\<close>.\<close>

definition ab_input_world :: world where
  "ab_input_world = base_world\<lparr>stdin := [0x61, 0x62], mem := zero_memory(2002 := 0x58)\<rparr>"



text \<open>
  Standard input holding \<^verbatim>\<open>"AA"\<close> for a run in pipe mode, with the key \<^verbatim>\<open>"AB"\<close>
  in the key buffer.
\<close>

definition aa_stdin_world :: world where
  "aa_stdin_world =
     base_world\<lparr>stdin := [0x41, 0x41], mem := zero_memory(1000 := 0x41, 1001 := 0x42)\<rparr>"

definition aa_stdin_args :: user_data_args_s where
  "aa_stdin_args = base_args\<lparr>fd_in := 0, ifile := Some ''stdin'', ispipe := True,
                             args_keylen := 2, filelen := INT_MAX\<rparr>"

definition kbuf_context :: crypt_context where
  "kbuf_context = \<lparr>key = 1000, keylen = 2\<rparr>"




definition out_file_world :: world where
  "out_file_world =
     aa_stdin_world\<lparr>fs := [''out'' \<mapsto> \<lparr>bytes = [9, 9, 9, 9, 9], perm = 0x180\<rparr>]\<rparr>"

definition out_file_args :: user_data_args_s where
  "out_file_args = aa_stdin_args\<lparr>ofile := Some ''out''\<rparr>"

text \<open>
  A key file that exists and is empty, one character on standard input, and
  the command line \<^verbatim>\<open>-f key -\<close> as \<^verbatim>\<open>parse_args\<close> stores it.
\<close>

definition empty_key_world :: world where
  "empty_key_world =
     base_world\<lparr>fs := [''key'' \<mapsto> \<lparr>bytes = [], perm = 0x1A4\<rparr>], stdin := [0x41]\<rparr>"

definition empty_key_args :: user_data_args_s where
  "empty_key_args = base_args\<lparr>kfile := Some ''key'', ifile := Some ''stdin'', ispipe := True\<rparr>"

text \<open>
  The same with the output file already open on descriptor 3, the offset at
  its end.
\<close>

definition out_open_world :: world where
  "out_open_world = out_file_world\<lparr>fdt := [3 \<mapsto> \<lparr>path = ''out'', pos = 5\<rparr>], next_fd := 4\<rparr>"

definition out_open_args :: user_data_args_s where
  "out_open_args = out_file_args\<lparr>fd_out := 3\<rparr>"
section \<open>Lemmas on the cipher\<close>

lemma length_transform_from: "length (transform_from w i p) = length p"
  by (induction p arbitrary: w i) (simp_all add: Let_def)

lemma transform_from_involution: "transform_from w i (transform_from w i p) = p"
  by (induction p arbitrary: w i) (simp_all add: Let_def xor.assoc)

lemma length_bytes_at: "length (bytes_at h a n) = n"
  by (simp add: bytes_at_def)

lemma c_rem_nonneg: "0 \<le> a \<Longrightarrow> 0 < b \<Longrightarrow> c_rem a b = a mod b"
  by (cases "a = 0") (simp_all add: c_rem_def)

lemma key_byte_update:
  assumes "0 \<le> i"
  shows "(word_of_int (c_rem (uint (b :: u8) + i) 256) :: u8) = word_of_nat ((unat b + nat i) mod 256)"
proof -
  have "c_rem (uint b + i) 256 = (uint b + i) mod 256"
    using assms by (intro c_rem_nonneg) simp_all
  also have "\<dots> = int ((unat b + nat i) mod 256)"
    using assms by (simp add: zmod_int)
  finally show ?thesis by simp
qed

text \<open>The loop writes inside the part of the output buffer it has still to fill.\<close>

lemma crypt_loop_frame:
  "crypt_loop klen len out inp h k i cnt = Inr h' \<Longrightarrow> a \<notin> {out + cnt ..< out + len} \<Longrightarrow> h' a = h a"
proof (induction klen len out inp h k i cnt rule: crypt_loop.induct)
  case (1 klen len out inp h k i cnt)
  show ?case
  proof (cases "cnt < len")
    case False
    with "1.prems" show ?thesis by (simp add: crypt_loop.simps)
  next
    case True
    define k' where "k' = k(i := word_of_int (c_rem (uint (k i) + i) 256))"
    define h1 where "h1 = h(out + cnt := h (inp + cnt) XOR k' i)"
    from True "1.prems"(1) have ok: "\<not> INT_MAX < uint (k i) + i" "klen \<noteq> 0" "int cnt \<noteq> INT_MAX"
      and run: "crypt_loop klen len out inp h1 k' (c_rem (i + 1) klen) (cnt + 1) = Inr h'"
      by (simp_all add: crypt_loop.simps [of klen len out inp h k i cnt] Let_def k'_def h1_def split: if_splits)
    from "1.prems"(2) have "a \<notin> {out + (cnt + 1) ..< out + len}" by auto
    with "1.IH" [OF True ok(1) k'_def h1_def ok(2,3) run] have "h' a = h1 a" .
    moreover from "1.prems"(2) True have "a \<noteq> out + cnt" by auto
    ultimately show ?thesis by (simp add: h1_def)
  qed
qed

text \<open>
  The loop against the transform of the specification: the working copy \<open>k\<close>
  holds the list \<open>w\<close>, and no output byte written from position \<open>cnt\<close> on is an
  input byte still to be read.
\<close>

lemma crypt_loop_refines:
  assumes "klen = int (length w)" "0 < length w" "length w \<le> 256"
    and "int len \<le> INT_MAX"
    and "0 \<le> i" "i < klen"
    and "\<forall>j < length w. k (int j) = w ! j"
    and "\<forall>a b. cnt \<le> a \<and> a < b \<and> b < len \<longrightarrow> out + a \<noteq> inp + b"
  shows "\<exists>h'. crypt_loop klen len out inp h k i cnt = Inr h' \<and>
           map (\<lambda>c. h' (out + c)) [cnt..<len] =
             transform_from w (nat i) (map (\<lambda>c. h (inp + c)) [cnt..<len])"
  using assms
proof (induction klen len out inp h k i cnt arbitrary: w rule: crypt_loop.induct)
  case (1 klen len out inp h k i cnt)
  show ?case
  proof (cases "cnt < len")
    case False
    then show ?thesis by (simp add: crypt_loop.simps)
  next
    case True
    define k' where "k' = k(i := word_of_int (c_rem (uint (k i) + i) 256))"
    define h1 where "h1 = h(out + cnt := h (inp + cnt) XOR k' i)"
    define w' where "w' = w[nat i := word_of_nat ((unat (w ! nat i) + nat i) mod 256)]"
    define i' where "i' = c_rem (i + 1) klen"
    have ilt: "nat i < length w" using "1.prems" by simp
    have ki: "k i = w ! nat i" using "1.prems"(5,7) ilt by (metis int_nat_eq)
    have no_of: "\<not> INT_MAX < uint (k i) + i"
    proof -
      have "uint (k i) < 256" using uint_bounded [of "k i"] by simp
      with "1.prems" show ?thesis by (simp add: INT_MAX_def)
    qed
    have klen0: "klen \<noteq> 0" using "1.prems" by simp
    have cnt_ok: "int cnt \<noteq> INT_MAX" using True "1.prems"(4) by simp
    have i'_eq: "i' = (i + 1) mod klen"
      unfolding i'_def using "1.prems" by (intro c_rem_nonneg) simp_all
    have i'_nat: "nat i' = (nat i + 1) mod length w"
      using "1.prems" by (simp add: i'_eq nat_mod_distrib nat_add_distrib)
    have k'i: "k' i = w' ! nat i"
      using ilt "1.prems"(5) by (simp add: k'_def w'_def key_byte_update ki)
    have rel': "\<forall>j < length w'. k' (int j) = w' ! j"
    proof (intro allI impI)
      fix j assume "j < length w'"
      then have j: "j < length w" by (simp add: w'_def)
      show "k' (int j) = w' ! j"
      proof (cases "int j = i")
        case True
        then have "nat i = j" by simp
        with k'i True show ?thesis by simp
      next
        case False
        then have "j \<noteq> nat i" using "1.prems"(5) by auto
        with False j "1.prems"(7) show ?thesis by (simp add: k'_def w'_def)
      qed
    qed
    have step: "crypt_loop klen len out inp h k i cnt = crypt_loop klen len out inp h1 k' i' (cnt + 1)"
      using True no_of klen0 cnt_ok
      by (simp add: crypt_loop.simps [of klen len out inp h k i cnt] Let_def k'_def h1_def i'_def)
    have "\<exists>h'. crypt_loop klen len out inp h1 k' i' (cnt + 1) = Inr h' \<and>
           map (\<lambda>c. h' (out + c)) [cnt + 1..<len] =
             transform_from w' (nat i') (map (\<lambda>c. h1 (inp + c)) [cnt + 1..<len])"
      unfolding i'_def
    proof (rule "1.IH" [OF True no_of k'_def h1_def klen0 cnt_ok])
      show "klen = int (length w')" using "1.prems" by (simp add: w'_def)
      show "0 < length w'" "length w' \<le> 256" using "1.prems" by (simp_all add: w'_def)
      show "int len \<le> INT_MAX" by fact
      show "0 \<le> c_rem (i + 1) klen" "c_rem (i + 1) klen < klen"
        using i'_eq "1.prems" by (simp_all add: i'_def)
      show "\<forall>j<length w'. k' (int j) = w' ! j" by (rule rel')
      show "\<forall>a b. cnt + 1 \<le> a \<and> a < b \<and> b < len \<longrightarrow> out + a \<noteq> inp + b"
        using "1.prems"(8) by auto
    qed
    then obtain h' where run: "crypt_loop klen len out inp h1 k' i' (cnt + 1) = Inr h'"
      and rest: "map (\<lambda>c. h' (out + c)) [Suc cnt..<len] =
                   transform_from w' (nat i') (map (\<lambda>c. h1 (inp + c)) [Suc cnt..<len])"
      by auto
    have unread: "map (\<lambda>c. h1 (inp + c)) [Suc cnt..<len] = map (\<lambda>c. h (inp + c)) [Suc cnt..<len]"
    proof (rule map_cong [OF refl])
      fix c assume "c \<in> set [Suc cnt..<len]"
      then have "cnt \<le> cnt \<and> cnt < c \<and> c < len" by simp
      with "1.prems"(8) have "out + cnt \<noteq> inp + c" by blast
      then show "h1 (inp + c) = h (inp + c)" by (simp add: h1_def)
    qed
    have "h' (out + cnt) = h1 (out + cnt)"
      by (rule crypt_loop_frame [OF run]) simp
    then have first: "h' (out + cnt) = h (inp + cnt) XOR w' ! nat i"
      by (simp add: h1_def k'i)
    have "map (\<lambda>c. h' (out + c)) [cnt..<len] =
            h' (out + cnt) # map (\<lambda>c. h' (out + c)) [Suc cnt..<len]"
      using True by (simp add: upt_conv_Cons)
    also have "\<dots> = transform_from w (nat i) (h (inp + cnt) # map (\<lambda>c. h (inp + c)) [Suc cnt..<len])"
      using "1.prems"(1) by (simp add: Let_def first rest unread i'_nat w'_def [symmetric])
    also have "h (inp + cnt) # map (\<lambda>c. h (inp + c)) [Suc cnt..<len] = map (\<lambda>c. h (inp + c)) [cnt..<len]"
      using True by (simp add: upt_conv_Cons)
    finally show ?thesis using step run by simp
  qed
qed

lemma crypt_buffer_refines:
  assumes "ctx_ok" "key_ok"
    and "1 \<le> keylen ctx" "keylen ctx \<le> 256"
    and "int len \<le> INT_MAX"
    and "\<forall>a b. a < b \<and> b < len \<longrightarrow> output + a \<noteq> input + b"
  shows "\<exists>h'. crypt_buffer ctx_ok key_ok blk h ctx output input len = Inr (0, h') \<and>
           bytes_at h' output len =
             transform (bytes_at h (key ctx) (nat (keylen ctx))) (bytes_at h input len)"
proof -
  define w where "w = bytes_at h (key ctx) (nat (keylen ctx))"
  define k where "k = (\<lambda>j. if 0 \<le> j \<and> j < keylen ctx then h (key ctx + nat j) else blk j)"
  have lw: "length w = nat (keylen ctx)" by (simp add: w_def length_bytes_at)
  have "\<exists>h'. crypt_loop (keylen ctx) len output input h k 0 0 = Inr h' \<and>
           map (\<lambda>c. h' (output + c)) [0..<len] =
             transform_from w (nat 0) (map (\<lambda>c. h (input + c)) [0..<len])"
  proof (rule crypt_loop_refines)
    show "keylen ctx = int (length w)" using assms(3) by (simp add: lw)
    show "0 < length w" "length w \<le> 256" using assms(3,4) by (simp_all add: lw)
    show "int len \<le> INT_MAX" by fact
    show "(0::int) \<le> 0" "0 < keylen ctx" using assms(3) by simp_all
    show "\<forall>j<length w. k (int j) = w ! j"
      using assms(3) by (auto simp: lw k_def w_def bytes_at_def)
    show "\<forall>a b. 0 \<le> a \<and> a < b \<and> b < len \<longrightarrow> output + a \<noteq> input + b"
      using assms(6) by simp
  qed
  then obtain h' where "crypt_loop (keylen ctx) len output input h k 0 0 = Inr h'"
    and "bytes_at h' output len = transform w (bytes_at h input len)"
    by (auto simp: bytes_at_def transform_def)
  then show ?thesis
    using assms(1-3) by (simp add: crypt_buffer_def k_def [symmetric] w_def)
qed

lemma crypt_buffer_frame:
  assumes "crypt_buffer ctx_ok key_ok blk h ctx output input len = Inr (r, h')"
    and "a \<notin> {output ..< output + len}"
  shows "h' a = h a"
proof (cases "ctx_ok \<and> key_ok \<and> 0 \<le> keylen ctx")
  case False
  with assms(1) show ?thesis by (auto simp: crypt_buffer_def split: if_splits)
next
  case True
  with assms(1) obtain k where "crypt_loop (keylen ctx) len output input h k 0 0 = Inr h'"
    by (auto simp: crypt_buffer_def Let_def split: sum.splits)
  from crypt_loop_frame [OF this] assms(2) show ?thesis by simp
qed

lemma crypt_buffer_zero_keylen:
  assumes "ctx_ok" "key_ok" "keylen ctx = 0" "0 < len"
  shows "crypt_buffer ctx_ok key_ok blk h ctx output input len = Inl Division_By_Zero"
proof -
  have "uint (blk 0) < 256" using uint_bounded [of "blk 0"] by simp
  then have "\<not> INT_MAX < uint (blk 0) + 0" by (simp add: INT_MAX_def)
  then show ?thesis
    using assms by (simp add: crypt_buffer_def crypt_loop.simps [of 0 len] Let_def)
qed

lemma crypt_call_transform:
  assumes "1 \<le> length k" "length k \<le> 256" "int (length p) \<le> INT_MAX"
  shows "crypt_call k p = Inr (0, transform k p)"
proof -
  define h where "h = (\<lambda>a. if a < length k then k ! a
                    else if a < length k + length p then p ! (a - length k) else 0)"
  define ctx where "ctx = \<lparr>key = 0, keylen = int (length k)\<rparr>"
  have kb: "bytes_at h (key ctx) (nat (keylen ctx)) = k"
    by (rule nth_equalityI) (simp_all add: bytes_at_def h_def ctx_def)
  have pb: "bytes_at h (length k) (length p) = p"
    by (rule nth_equalityI) (simp_all add: bytes_at_def h_def)
  have "\<exists>h'. crypt_buffer True True (\<lambda>j. 0) h ctx (length k + length p) (length k) (length p) = Inr (0, h') \<and>
          bytes_at h' (length k + length p) (length p) =
            transform (bytes_at h (key ctx) (nat (keylen ctx))) (bytes_at h (length k) (length p))"
    using assms by (intro crypt_buffer_refines) (simp_all add: ctx_def)
  then show ?thesis
    by (auto simp: crypt_call_def h_def [symmetric] ctx_def [symmetric] kb pb)
qed

lemma crypt_blocks_transform:
  assumes "1 \<le> length k" "length k \<le> 256" "\<forall>b \<in> set bs. int (length b) \<le> INT_MAX"
  shows "crypt_blocks k bs = Some (map (transform k) bs)"
  using assms(3) by (induction bs) (simp_all add: crypt_call_transform [OF assms(1,2)])

lemma transform_involution: "transform k (transform k p) = p"
  by (simp add: transform_def transform_from_involution)

lemma length_transform: "length (transform k p) = length p"
  by (simp add: transform_def length_transform_from)

lemma concat_split_blocks: "sum_list ns = length xs \<Longrightarrow> concat (split_blocks ns xs) = xs"
  by (induction ns arbitrary: xs) simp_all

lemma split_blocks_concat: "split_blocks (map length bs) (concat bs) = bs"
  by (induction bs) simp_all

lemma length_split_blocks: "sum_list ns = length xs \<Longrightarrow> map length (split_blocks ns xs) = ns"
  by (induction ns arbitrary: xs) auto

lemma length_in_split_blocks: "b \<in> set (split_blocks ns xs) \<Longrightarrow> length b \<le> length xs"
proof (induction ns arbitrary: xs)
  case Nil
  then show ?case by simp
next
  case (Cons n ns)
  from Cons.prems have "b = take n xs \<or> b \<in> set (split_blocks ns (drop n xs))" by simp
  then show ?case
  proof
    assume "b = take n xs"
    then show ?thesis by simp
  next
    assume "b \<in> set (split_blocks ns (drop n xs))"
    then have "length b \<le> length (drop n xs)" by (rule Cons.IH)
    then show ?thesis by simp
  qed
qed

section \<open>Lemmas on the program\<close>



subsection \<open>Reading standard input\<close>

lemma store_bytes_Nil: "store_bytes h a [] = h"
  by (auto simp: store_bytes_def fun_eq_iff)

lemma read_input_loop_eof:
  "stdin w = [] \<Longrightarrow> read_input_loop m p buf i w = (buf, i, w)"
  by (simp add: read_input_loop.simps [of m p buf i w] getchar_def)

lemma read_input_loop_char:
  assumes "stdin w = c # cs"
  shows "read_input_loop m p buf i w =
     (if c = 10 \<and> \<not> p then (buf, i, w\<lparr>stdin := cs\<rparr>)
      else if m \<le> i + 1 then (buf + 1, i + 1, w\<lparr>stdin := cs, mem := (mem w)(buf := c)\<rparr>)
      else read_input_loop m p (buf + 1) (i + 1) (w\<lparr>stdin := cs, mem := (mem w)(buf := c)\<rparr>))"
proof -
  have "uint c \<noteq> EOF"
    unfolding EOF_def using uint_nonnegative [of c] by linarith
  moreover have "uint c = 10 \<longleftrightarrow> c = 10"
  proof
    assume "uint c = 10"
    then have "word_of_int (uint c) = (word_of_int 10 :: u8)" by simp
    then show "c = 10" by simp
  next
    assume "c = 10"
    then show "uint c = 10" by simp
  qed
  ultimately show ?thesis
    using assms by (simp add: read_input_loop.simps [of m p buf i w] getchar_def Let_def)
qed


text \<open>
  What the loop of \<^verbatim>\<open>read_input\<close> does: it stores a prefix of the characters
  to come, one after the other from \<open>buf\<close> on, counts them, and touches no other
  byte and nothing else of the world but standard input.
\<close>

lemma read_input_loop_effect:
  "read_input_loop m p buf i w = (buf', i', w') \<Longrightarrow>
   \<exists>n k. i' = i + int n \<and> buf' = buf + n \<and> n \<le> k \<and> k \<le> length (stdin w) \<and>
     w' = w\<lparr>stdin := drop k (stdin w), mem := store_bytes (mem w) buf (take n (stdin w))\<rparr>"
proof (induction "stdin w" arbitrary: w buf i)
  case Nil
  then have "stdin w = []" by simp
  with Nil.prems have "buf' = buf \<and> i' = i \<and> w' = w"
    by (simp add: read_input_loop_eof)
  then have "i' = i + int 0 \<and> buf' = buf + 0 \<and> (0::nat) \<le> 0 \<and> 0 \<le> length (stdin w) \<and>
     w' = w\<lparr>stdin := drop 0 (stdin w), mem := store_bytes (mem w) buf (take 0 (stdin w))\<rparr>"
    by (simp add: store_bytes_Nil)
  then show ?case by blast
next
  case (Cons c cs)
  from Cons.hyps(2) have sw: "stdin w = c # cs" by simp
  note unfold = read_input_loop_char [OF sw, of m p buf i]
  consider (newline) "c = 10 \<and> \<not> p"
    | (full) "\<not> (c = 10 \<and> \<not> p)" "m \<le> i + 1"
    | (more) "\<not> (c = 10 \<and> \<not> p)" "\<not> m \<le> i + 1"
    by blast
  then show ?case
  proof cases
    case newline
    with Cons.prems unfold have "buf' = buf \<and> i' = i \<and> w' = w\<lparr>stdin := cs\<rparr>" by simp
    then have "i' = i + int 0 \<and> buf' = buf + 0 \<and> (0::nat) \<le> 1 \<and> 1 \<le> length (stdin w) \<and>
       w' = w\<lparr>stdin := drop 1 (stdin w), mem := store_bytes (mem w) buf (take 0 (stdin w))\<rparr>"
      by (simp add: sw store_bytes_Nil)
    then show ?thesis by blast
  next
    case full
    then have cond: "(c = 10 \<and> \<not> p) = False" by blast
    from full(2) Cons.prems unfold
    have "buf' = buf + 1 \<and> i' = i + 1 \<and> w' = w\<lparr>stdin := cs, mem := (mem w)(buf := c)\<rparr>"
      by (simp add: cond)
    moreover have "store_bytes (mem w) buf [c] = (mem w)(buf := c)"
      by (auto simp: store_bytes_def fun_eq_iff)
    ultimately have "i' = i + int 1 \<and> buf' = buf + 1 \<and> (1::nat) \<le> 1 \<and> 1 \<le> length (stdin w) \<and>
       w' = w\<lparr>stdin := drop 1 (stdin w), mem := store_bytes (mem w) buf (take 1 (stdin w))\<rparr>"
      by (simp add: sw)
    then show ?thesis by blast
  next
    case more
    define w2 where "w2 = w\<lparr>stdin := cs, mem := (mem w)(buf := c)\<rparr>"
    from more have cond: "(c = 10 \<and> \<not> p) = False" by blast
    from more(2) Cons.prems unfold
    have run: "read_input_loop m p (buf + 1) (i + 1) w2 = (buf', i', w')"
      by (simp add: w2_def cond)
    have "cs = stdin w2" by (simp add: w2_def)
    from Cons.hyps(1) [OF this run] obtain n k where
      nk: "i' = i + 1 + int n" "buf' = buf + 1 + n" "n \<le> k" "k \<le> length (stdin w2)"
      and w': "w' = w2\<lparr>stdin := drop k (stdin w2),
                       mem := store_bytes (mem w2) (buf + 1) (take n (stdin w2))\<rparr>"
      by blast
    have "store_bytes ((mem w)(buf := c)) (buf + 1) (take n cs) = store_bytes (mem w) buf (c # take n cs)"
      by (auto simp: store_bytes_def fun_eq_iff nth_Cons')
    with nk w' have "i' = i + int (Suc n) \<and> buf' = buf + Suc n \<and> Suc n \<le> Suc k \<and>
       Suc k \<le> length (stdin w) \<and>
       w' = w\<lparr>stdin := drop (Suc k) (stdin w), mem := store_bytes (mem w) buf (take (Suc n) (stdin w))\<rparr>"
      by (simp add: w2_def sw)
    then show ?thesis by blast
  qed
qed

lemma read_input_effect:
  assumes "read_input buf m p w = (r, w')"
  shows "\<exists>n k pr. r = int n \<and> n \<le> k \<and> k \<le> length (stdin w) \<and>
     w' = w\<lparr>printed := pr, stdin := drop k (stdin w),
             mem := store_bytes (mem w) buf (take n (stdin w))\<rparr>"
proof -
  define w0 where "w0 = (if \<not> p then w\<lparr>printed := printed w @ [''Type the text to be encrypted: '']\<rparr> else w)"
  obtain b1 i1 w1 where run: "read_input_loop m p buf 0 w0 = (b1, i1, w1)"
    by (metis prod_cases3)
  with assms have r: "r = i1" "w' = w1"
    by (simp_all add: read_input_def w0_def [symmetric] Let_def)
  from read_input_loop_effect [OF run] obtain n k where
    "i1 = int n" "n \<le> k" "k \<le> length (stdin w0)"
    "w1 = w0\<lparr>stdin := drop k (stdin w0), mem := store_bytes (mem w0) buf (take n (stdin w0))\<rparr>"
    by auto
  with r have "r = int n \<and> n \<le> k \<and> k \<le> length (stdin w) \<and>
     w' = w\<lparr>printed := printed w0, stdin := drop k (stdin w),
             mem := store_bytes (mem w) buf (take n (stdin w))\<rparr>"
    by (cases p) (simp_all add: w0_def)
  then show ?thesis by blast
qed

lemma store_bytes_outside: "a \<notin> {buf ..< buf + length bs} \<Longrightarrow> store_bytes h buf bs a = h a"
  by (auto simp: store_bytes_def)

lemma bytes_at_store_bytes: "bytes_at (store_bytes h buf bs) buf (length bs) = bs"
  by (rule nth_equalityI) (simp_all add: bytes_at_def store_bytes_def)

subsection \<open>Reading a file\<close>






subsection \<open>Writing\<close>

lemma length_bytes_at': "length (bytes_at h a n) = n"
  by (simp add: bytes_at_def)

lemma sys_write_effect:
  assumes "sys_write fd buf n w = (r, w')"
  shows "\<exists>c. write_log w' = c # write_log w \<and> w_fd c = fd \<and> w_count c = n \<and> w_ret c = r \<and>
           (r = - 1 \<and> w_data c = [] \<or> 0 \<le> r \<and> w_data c = bytes_at (mem w) buf (nat r)) \<and>
           writes w' = tl (writes w) \<and> mem w' = mem w \<and> mask w' = mask w \<and>
           denied w' = denied w \<and> next_fd w' = next_fd w \<and> freed w' = freed w \<and>
           read_log w' = read_log w \<and> stdin w' = stdin w \<and>
           (\<forall>x. x \<noteq> fd \<longrightarrow> fdt w' x = fdt w x) \<and>
           (r < 0 \<longrightarrow> fs w' = fs w \<and> fdt w' = fdt w \<and> stdout w' = stdout w)"
proof (cases "write_count fd n w")
  case None
  with assms show ?thesis by (auto simp: sys_write_def)
next
  case (Some k)
  with assms show ?thesis by (cases "fd = 1") (auto simp: sys_write_def Let_def)
qed

lemma sys_write_stdout:
  assumes "sys_write 1 buf n w = (r, w')"
  shows "fs w' = fs w \<and> fdt w' = fdt w \<and> stdout w' = stdout w @ w_data (hd (write_log w'))"
proof (cases "write_count 1 n w")
  case None
  with assms show ?thesis by (auto simp: sys_write_def)
next
  case (Some k)
  with assms show ?thesis by (auto simp: sys_write_def Let_def)
qed

lemma sys_write_all:
  assumes "writes w = []" and "sys_write 1 buf n w = (r, w')"
  shows "r = int n \<and> stdout w' = stdout w @ bytes_at (mem w) buf n"
  using assms by (auto simp: sys_write_def write_count_def Let_def)

lemma put_bytes_end:
  "put_bytes (length data) new \<lparr>bytes = data, perm = pm\<rparr> = \<lparr>bytes = data @ new, perm = pm\<rparr>"
  by (simp add: put_bytes_def)

lemma sys_write_sink:
  assumes "sink_at name fd data pm w" and "sys_write fd buf n w = (r, w')"
  shows "sink_at name fd (data @ w_data (hd (write_log w'))) pm w' \<and> stdout w' = stdout w"
proof (cases "write_count fd n w")
  case None
  with assms show ?thesis by (auto simp: sys_write_def sink_at_def)
next
  case (Some k)
  from assms(1) have fd: "fd \<noteq> 1" "fdt w fd = Some \<lparr>path = name, pos = length data\<rparr>"
    "fs w name = Some \<lparr>bytes = data, perm = pm\<rparr>"
    by (simp_all add: sink_at_def)
  from assms(2) Some fd show ?thesis
    by (auto simp: sys_write_def Let_def sink_at_def put_bytes_end length_bytes_at')
qed

subsection \<open>Releasing\<close>

lemma free_close_alloc_effect:
  assumes "free_close_alloc args w = Inr w'"
  shows "\<not> freed w \<and> fs w' = fs w \<and> stdout w' = stdout w \<and> write_log w' = write_log w \<and>
         mask w' = mask w \<and> read_log w' = read_log w \<and> mem w' = mem w \<and> stdin w' = stdin w"
  using assms by (auto simp: free_close_alloc_def Let_def sys_close_def split: if_splits)


lemma free_close_alloc_ok:
  "\<not> freed w \<Longrightarrow> \<exists>w'. free_close_alloc args w = Inr w'"
  by (simp add: free_close_alloc_def Let_def)


subsection \<open>\<^verbatim>\<open>store_file\<close>\<close>

text \<open>
  Every outcome of \<^verbatim>\<open>store_file\<close>: a fault only on standard output, when the
  write failed and the blocks had been released before; otherwise either the
  output file could not be opened and nothing was written, or \<^verbatim>\<open>write\<close> was
  called once and the value returned is \<open>-EAGAIN\<close> exactly when \<^verbatim>\<open>write\<close>
  returned a negative value.
\<close>

lemma store_file_outcome:
  "case store_file args buf m w of
     Inl f \<Rightarrow> f = Double_Free \<and> freed w \<and> ofile args = None
   | Inr (r, args', w') \<Rightarrow>
       fd_in args' = fd_in args \<and> ofile args' = ofile args \<and> obuf args' = obuf args \<and>
       ibuf args' = ibuf args \<and> ispipe args' = ispipe args \<and>
       ((r = - EAGAIN \<and> write_log w' = write_log w \<and> fd_out args = - 1 \<and> ofile args \<noteq> None \<and>
         fs w' = fs w \<and> stdout w' = stdout w) \<or>
        (\<exists>c. write_log w' = c # write_log w \<and> w_count c = size_t_of m \<and>
           (w_ret c < 0 \<and> r = - EAGAIN \<or> 0 \<le> w_ret c \<and> r = 0)))"
proof (cases "ofile args")
  case None
  obtain x w1 where wr: "sys_write 1 (obuf args) (size_t_of m) w = (x, w1)"
    by (metis surj_pair)
  from sys_write_effect [OF wr] obtain c where
    c: "write_log w1 = c # write_log w" "w_count c = size_t_of m" "w_ret c = x"
       "freed w1 = freed w"
    by blast
  show ?thesis
  proof (cases "x < 0")
    case False
    with None wr c show ?thesis by (simp add: store_file_def)
  next
    case True
    show ?thesis
    proof (cases "freed w")
      case True
      with \<open>x < 0\<close> None wr c show ?thesis
        by (simp add: store_file_def free_close_alloc_def)
    next
      case False
      with c have "\<not> freed w1" by simp
      from free_close_alloc_ok [OF this] obtain w2 where fr: "free_close_alloc args w1 = Inr w2" ..
      with free_close_alloc_effect [OF fr] \<open>x < 0\<close> None wr c show ?thesis
        by (simp add: store_file_def)
    qed
  qed
next
  case (Some name)
  show ?thesis
  proof (cases "fd_out args = - 1")
    case False
    obtain x w1 where wr: "sys_write (fd_out args) buf (size_t_of m) w = (x, w1)"
      by (metis surj_pair)
    from sys_write_effect [OF wr] obtain c where
      "write_log w1 = c # write_log w" "w_count c = size_t_of m" "w_ret c = x"
      by blast
    with False Some wr show ?thesis by (simp add: store_file_def)
  next
    case True
    obtain fd w0 where op: "sys_open_creat_trunc name mode_0666 (sys_umask 0 w) = (fd, w0)"
      by (metis surj_pair)
    show ?thesis
    proof (cases "fd < 0")
      case neg: True
      with op have "w0 = sys_umask 0 w"
        by (auto simp: sys_open_creat_trunc_def Let_def split: if_splits)
      with neg True Some op show ?thesis
        by (simp add: store_file_def sys_umask_def)
    next
      case pos: False
      from op have lg: "write_log w0 = write_log w"
        by (auto simp: sys_open_creat_trunc_def sys_umask_def Let_def split: if_splits)
      obtain x w1 where wr: "sys_write fd buf (size_t_of m) w0 = (x, w1)"
        by (metis surj_pair)
      from sys_write_effect [OF wr] obtain c where
        "write_log w1 = c # write_log w0" "w_count c = size_t_of m" "w_ret c = x"
        by blast
      with pos True Some op wr lg show ?thesis by (simp add: store_file_def)
    qed
  qed
qed

text \<open>The first call for a named output file, and the later ones.\<close>

lemma store_file_first:
  assumes "ofile args = Some name" and "fd_out args = - 1"
    and "\<not> denied w name" and "1 < next_fd w"
  shows "\<exists>r w' pm. store_file args buf m w = Inr (r, args\<lparr>fd_out := int (next_fd w)\<rparr>, w') \<and>
           sink_at name (int (next_fd w)) (w_data (hd (write_log w'))) pm w' \<and>
           (fs w name = None \<longrightarrow> pm = mode_0666) \<and>
           (\<forall>f. fs w name = Some f \<longrightarrow> pm = perm f) \<and>
           length (write_log w') = Suc (length (write_log w)) \<and>
           mask w' = 0 \<and> next_fd w' = next_fd w + 1 \<and> stdout w' = stdout w"
proof -
  define pm where "pm = (case fs w name of None \<Rightarrow> mode_0666 | Some f \<Rightarrow> perm f)"
  define w0 where "w0 = snd (sys_open_creat_trunc name mode_0666 (sys_umask 0 w))"
  have op: "sys_open_creat_trunc name mode_0666 (sys_umask 0 w) = (int (next_fd w), w0)"
    using assms(3) by (simp add: w0_def sys_open_creat_trunc_def sys_umask_def Let_def)
  have s0: "sink_at name (int (next_fd w)) [] pm w0"
    using assms(3,4)
    by (auto simp: w0_def sys_open_creat_trunc_def sys_umask_def Let_def sink_at_def pm_def
        split: option.splits)
  have m0: "mask w0 = 0" "next_fd w0 = next_fd w + 1" "write_log w0 = write_log w"
    "stdout w0 = stdout w"
    using assms(3) by (simp_all add: w0_def sys_open_creat_trunc_def sys_umask_def Let_def)
  obtain x w1 where wr: "sys_write (int (next_fd w)) buf (size_t_of m) w0 = (x, w1)"
    by (metis surj_pair)
  from sys_write_effect [OF wr] obtain c where
    e: "write_log w1 = c # write_log w0" "mask w1 = mask w0" "next_fd w1 = next_fd w0"
    by blast
  from sys_write_sink [OF s0 wr]
  have s1: "sink_at name (int (next_fd w)) (w_data (hd (write_log w1))) pm w1" "stdout w1 = stdout w0"
    by simp_all
  have "store_file args buf m w = Inr (if x < 0 then - EAGAIN else 0, args\<lparr>fd_out := int (next_fd w)\<rparr>, w1)"
    using assms(1,2,4) op wr by (simp add: store_file_def)
  with s1 e m0 show ?thesis
    by (auto simp: pm_def)
qed

lemma store_file_next:
  assumes "ofile args = Some name" and "fd_out args \<noteq> - 1"
    and "sink_at name (fd_out args) data pm w"
  shows "\<exists>r w'. store_file args buf m w = Inr (r, args, w') \<and>
           sink_at name (fd_out args) (data @ w_data (hd (write_log w'))) pm w' \<and>
           length (write_log w') = Suc (length (write_log w)) \<and>
           mask w' = mask w \<and> next_fd w' = next_fd w \<and> stdout w' = stdout w"
proof -
  obtain x w1 where wr: "sys_write (fd_out args) buf (size_t_of m) w = (x, w1)"
    by (metis surj_pair)
  from sys_write_effect [OF wr] obtain c where
    e: "write_log w1 = c # write_log w" "mask w1 = mask w" "next_fd w1 = next_fd w"
    by blast
  from sys_write_sink [OF assms(3) wr]
  have s1: "sink_at name (fd_out args) (data @ w_data (hd (write_log w1))) pm w1"
    "stdout w1 = stdout w"
    by simp_all
  have "store_file args buf m w = Inr (if x < 0 then - EAGAIN else 0, args, w1)"
    using assms(1,2) wr by (simp add: store_file_def)
  with s1 e show ?thesis by auto
qed

subsection \<open>The call of the cipher\<close>




lemma call_crypt_buffer_transform:
  assumes "1 \<le> keylen ctx" and "keylen ctx \<le> 256"
    and "set (take 2 (mallocs w)) \<subseteq> {True}"
    and "0 \<le> len" and "len \<le> INT_MAX"
    and "\<forall>a b. a < b \<and> b < nat len \<longrightarrow> out + a \<noteq> inp + b"
  shows "\<exists>h'. call_crypt_buffer ctx out inp len w =
                 Inr (0, w\<lparr>mallocs := drop 2 (mallocs w), mem := h'\<rparr>) \<and>
           bytes_at h' out (nat len) =
             transform (bytes_at (mem w) (key ctx) (nat (keylen ctx))) (bytes_at (mem w) inp (nat len))"
proof -
  have len: "nat (len mod 2 ^ 32) = nat len"
    using assms(4,5) by (simp add: INT_MAX_def)
  obtain ok1 w1 where m1: "malloc w = (ok1, w1)" by (metis surj_pair)
  obtain ok2 w2 where m2: "malloc w1 = (ok2, w2)" by (metis surj_pair)
  from assms(3) m1 m2 have ok: "ok1" "ok2" and w2: "w2 = w\<lparr>mallocs := drop 2 (mallocs w)\<rparr>"
    by (auto simp: malloc_def split: list.splits)
  from crypt_buffer_refines [where ctx_ok = True and key_ok = True and blk = "fresh w" and h = "mem w",
      OF TrueI TrueI assms(1,2) _ assms(6)] assms(4,5)
  obtain h' where "crypt_buffer True True (fresh w) (mem w) ctx out inp (nat len) = Inr (0, h')"
    and "bytes_at h' out (nat len) =
           transform (bytes_at (mem w) (key ctx) (nat (keylen ctx))) (bytes_at (mem w) inp (nat len))"
    by auto
  with m1 m2 ok w2 len show ?thesis
    by (auto simp: call_crypt_buffer_def)
qed

subsection \<open>The loop of \<^verbatim>\<open>main\<close>\<close>



lemma store_file_keeps_fd_in:
  "store_file args buf m w = Inr (r, args', w') \<Longrightarrow> fd_in args' = fd_in args"
  using store_file_outcome [where args = args and buf = buf and m = m and w = w] by simp

lemma store_file_stdout_all:
  assumes "ofile args = None" and "writes w = []" and "0 \<le> m" and "m < 2 ^ 64"
  shows "\<exists>w'. store_file args buf m w = Inr (0, args, w') \<and>
           stdout w' = stdout w @ bytes_at (mem w) (obuf args) (nat m) \<and>
           stdin w' = stdin w \<and> read_log w' = read_log w"
proof -
  have sz: "size_t_of m = nat m" using assms(3,4) by (simp add: size_t_of_def)
  obtain x w1 where wr: "sys_write 1 (obuf args) (nat m) w = (x, w1)" by (metis surj_pair)
  from sys_write_all [OF assms(2) wr] sys_write_effect [OF wr] assms(1,3) wr
  show ?thesis by (auto simp: store_file_def sz)
qed

subsection \<open>Evaluation\<close>



subsection \<open>The record of writes over a run of the loop\<close>



subsection \<open>The output file over a run of the loop\<close>

lemma sink_at_frame:
  "sink_at name fd data pm w \<Longrightarrow> fs w' = fs w \<Longrightarrow> fdt w' fd = fdt w fd \<Longrightarrow>
   sink_at name fd data pm w'"
  by (simp add: sink_at_def)

lemma sink_at_file: "sink_at name fd data pm w \<Longrightarrow> fs w name = Some \<lparr>bytes = data, perm = pm\<rparr>"
  by (simp add: sink_at_def)


lemma upt_0_2: "[0..<2] = [0, Suc 0]"
  by (simp add: upt_rec)

subsection \<open>An empty key file\<close>

lemma read_input_loop_bound:
  "read_input_loop m p buf i w = (buf', i', w') \<Longrightarrow> i < m \<Longrightarrow> i \<le> i' \<and> i' \<le> m"
proof (induction "stdin w" arbitrary: w buf i)
  case Nil
  then have "stdin w = []" by simp
  with Nil.prems show ?case by (simp add: read_input_loop_eof)
next
  case (Cons c cs)
  from Cons.hyps(2) have sw: "stdin w = c # cs" by simp
  note unfold = read_input_loop_char [OF sw, of m p buf i]
  consider (newline) "c = 10 \<and> \<not> p"
    | (full) "\<not> (c = 10 \<and> \<not> p)" "m \<le> i + 1"
    | (more) "\<not> (c = 10 \<and> \<not> p)" "\<not> m \<le> i + 1"
    by blast
  then show ?case
  proof cases
    case newline
    with Cons.prems unfold show ?thesis by simp
  next
    case full
    then have cond: "(c = 10 \<and> \<not> p) = False" by blast
    from full(2) Cons.prems unfold show ?thesis by (simp add: cond)
  next
    case more
    define w2 where "w2 = w\<lparr>stdin := cs, mem := (mem w)(buf := c)\<rparr>"
    from more have cond: "(c = 10 \<and> \<not> p) = False" by blast
    from more(2) Cons.prems unfold
    have run: "read_input_loop m p (buf + 1) (i + 1) w2 = (buf', i', w')"
      by (simp add: w2_def cond)
    have "cs = stdin w2" by (simp add: w2_def)
    from Cons.hyps(1) [OF this run] more(2) show ?thesis by simp
  qed
qed

text \<open>
  A first character that is stored makes \<^verbatim>\<open>read_input\<close> return at least 1 and
  at most \<open>maxsize\<close>.
\<close>

lemma read_input_first_char:
  assumes "read_input buf m p w = (r, w')" and "stdin w = c # cs" and "p \<or> c \<noteq> 10"
    and "1 \<le> m"
  shows "1 \<le> r \<and> r \<le> m"
proof -
  define w0 where "w0 = (if \<not> p then w\<lparr>printed := printed w @ [''Type the text to be encrypted: '']\<rparr> else w)"
  obtain b1 i1 w1 where run: "read_input_loop m p buf 0 w0 = (b1, i1, w1)"
    by (metis prod_cases3)
  with assms(1) have r: "r = i1"
    by (simp_all add: read_input_def w0_def [symmetric] Let_def)
  have sw: "stdin w0 = c # cs" using assms(2) by (simp add: w0_def)
  from assms(3) have cond: "(c = 10 \<and> \<not> p) = False" by blast
  show ?thesis
  proof (cases "m \<le> 1")
    case True
    with run read_input_loop_char [OF sw, of m p buf 0] assms(4) r show ?thesis
      by (simp add: cond)
  next
    case False
    define w2 where "w2 = w0\<lparr>stdin := cs, mem := (mem w0)(buf := c)\<rparr>"
    from False run read_input_loop_char [OF sw, of m p buf 0]
    have "read_input_loop m p (buf + 1) 1 w2 = (b1, i1, w1)"
      by (simp add: cond w2_def)
    from read_input_loop_bound [OF this] False r show ?thesis by simp
  qed
qed

text \<open>
  The key file is opened and found empty: \<open>keylen\<close> becomes 0, \<^verbatim>\<open>load_file\<close>
  returns 0 without a call of \<^verbatim>\<open>read\<close>, and the loading succeeds.
\<close>

lemma main_load_key_empty_file:
  assumes "kfile args = Some name" and "name \<noteq> ''stdin''"
    and "fs w name = Some f" and "bytes f = []" and "\<not> denied w name" and "0 < next_fd w"
  shows "main_load_key args w =
           Inr (0, args\<lparr>args_keylen := 0, fd_key := int (next_fd w)\<rparr>,
                w\<lparr>fdt := (fdt w)(int (next_fd w) \<mapsto> \<lparr>path = name, pos = 0\<rparr>),
                  next_fd := next_fd w + 1\<rparr>)"
proof -
  define w1 where "w1 = w\<lparr>fdt := (fdt w)(int (next_fd w) \<mapsto> \<lparr>path = name, pos = 0\<rparr>),
                  next_fd := next_fd w + 1\<rparr>"
  have op: "sys_open_rdonly name w = (int (next_fd w), w1)"
    using assms(3,5) by (simp add: sys_open_rdonly_def w1_def)
  have st: "sys_fstat (int (next_fd w)) w1 = Some 0"
    using assms(3,4) by (simp add: sys_fstat_def w1_def)
  have fsz: "file_size name w = (0, int (next_fd w), w1)"
    using assms(2) by (simp add: file_size_def op st int_of_off_def)
  have ld: "load_file a (int (next_fd w)) b 0 w1 = (0, w1)" for a b
    using assms(6) by (simp add: load_file_def load_file_loop.simps [of _ _ 0 0])
  have "main_load_key args w =
          Inr (0, args\<lparr>args_keylen := 0, fd_key := int (next_fd w)\<rparr>, w1)"
    using assms(1) by (simp add: main_load_key_def fsz ld Let_def)
  then show ?thesis by (simp add: w1_def)
qed

text \<open>
  With the key file empty and a first character on standard input, \<^verbatim>\<open>main\<close>
  reaches \<^verbatim>\<open>crypt_buffer\<close> with \<open>keylen = 0\<close> and a block of at least one byte.
\<close>

lemma main_empty_key_file:
  assumes "kfile args = Some name" and "name \<noteq> ''stdin''"
    and "fs w name = Some f" and "bytes f = []" and "\<not> denied w name" and "0 < next_fd w"
    and "mallocs w = []"
    and "ifile args = None \<or> ifile args = Some ''stdin''"
    and "stdin w = c # cs" and "ispipe args \<or> c \<noteq> 10"
  shows "main args w = Inl Division_By_Zero"
proof -
  define w1 where "w1 = w\<lparr>fdt := (fdt w)(int (next_fd w) \<mapsto> \<lparr>path = name, pos = 0\<rparr>),
                  next_fd := next_fd w + 1\<rparr>"
  define args1 where "args1 = args\<lparr>args_keylen := 0, fd_key := int (next_fd w)\<rparr>"
  define args3 where "args3 = args1\<lparr>ifile := Some ''stdin'', filelen := INT_MAX, fd_in := 0\<rparr>"
  define ctx where "ctx = \<lparr>key = kbuf args1, keylen = args_keylen args1\<rparr>"
  have key: "main_load_key args w = Inr (0, args1, w1)"
    unfolding args1_def w1_def by (rule main_load_key_empty_file [OF assms(1-6)])
  have m1: "malloc w1 = (True, w1)"
    using assms(7) by (simp add: malloc_def w1_def)
  have nm: "(case ifile args1 of None \<Rightarrow> ''stdin'' | Some n \<Rightarrow> n) = ''stdin''"
    using assms(8) by (auto simp: args1_def)
  have fsz: "file_size ''stdin'' w1 = (INT_MAX, 0, w1)"
    by (simp add: file_size_def)
  have "main args w = main_loop ctx args3 INT_MAX w1"
    using assms(1)
    by (simp add: main_def key m1 nm fsz Let_def ctx_def args3_def INT_MAX_def)
  moreover have "main_loop ctx args3 INT_MAX w1 = Inl Division_By_Zero"
  proof -
    obtain nread w2 where
      rd: "read_input (ibuf args3) MAX_INPUT_SIZE (ispipe args3) w1 = (nread, w2)"
      by (metis surj_pair)
    have ld: "load_file args3 0 (ibuf args3) 1024 w1 = (nread, w2)"
      using rd by (simp add: load_file_def MAX_INPUT_SIZE_def)
    have "stdin w1 = c # cs" using assms(9) by (simp add: w1_def)
    moreover have "ispipe args3 \<or> c \<noteq> 10"
      using assms(10) by (simp add: args3_def args1_def)
    ultimately have n: "1 \<le> nread \<and> nread \<le> MAX_INPUT_SIZE"
      using read_input_first_char [OF rd] by (simp add: MAX_INPUT_SIZE_def)
    from read_input_effect [OF rd] have ms: "mallocs w2 = []"
      using assms(7) by (auto simp: w1_def)
    have "nread mod 2 ^ 32 = nread"
      using n by (intro mod_pos_pos_trivial) (simp_all add: MAX_INPUT_SIZE_def)
    then have len: "0 < nat (nread mod 2 ^ 32)"
      using n by simp
    have cb: "crypt_buffer True True blk h ctx a b (nat (nread mod 4294967296)) = Inl Division_By_Zero"
      for blk h a b
      by (rule crypt_buffer_zero_keylen) (use len in \<open>simp_all add: ctx_def args1_def\<close>)
    have call: "call_crypt_buffer ctx (obuf args3) (ibuf args3) nread w2 = Inl Division_By_Zero"
      by (simp add: call_crypt_buffer_def malloc_def ms cb)
    have fd: "fd_in args3 = 0" by (simp add: args3_def)
    show ?thesis
      by (subst main_loop.simps) (simp add: INT_MAX_def MAX_INPUT_SIZE_def ld call fd Let_def)
  qed
  ultimately show ?thesis by simp
qed

subsection \<open>A turn of the loop up to \<^verbatim>\<open>store_file\<close>\<close>





subsection \<open>An environment that accepts every write\<close>

text \<open>
  A \<^verbatim>\<open>write\<close> to the open output file in an environment that accepts every
  write: all \<open>n\<close> bytes are appended.
\<close>

lemma sys_write_sink_all:
  assumes "sink_at name fd data pm w" and "writes w = []"
  shows "\<exists>w'. sys_write fd buf n w = (int n, w') \<and>
           sink_at name fd (data @ bytes_at (mem w) buf n) pm w' \<and>
           write_log w' = \<lparr>w_fd = fd, w_count = n, w_ret = int n,
                            w_data = bytes_at (mem w) buf n\<rparr> # write_log w \<and>
           stdout w' = stdout w \<and> writes w' = [] \<and> mem w' = mem w \<and> mask w' = mask w \<and>
           denied w' = denied w \<and> next_fd w' = next_fd w \<and> freed w' = freed w \<and>
           read_log w' = read_log w \<and> stdin w' = stdin w \<and> printed w' = printed w \<and>
           (\<forall>x. x \<noteq> fd \<longrightarrow> fdt w' x = fdt w x) \<and>
           (\<forall>x. x \<noteq> name \<longrightarrow> fs w' x = fs w x)"
proof -
  from assms(1) have fd: "fd \<noteq> 1" "fdt w fd = Some \<lparr>path = name, pos = length data\<rparr>"
    "fs w name = Some \<lparr>bytes = data, perm = pm\<rparr>"
    by (simp_all add: sink_at_def)
  have wc: "write_count fd n w = Some n"
    using fd assms(2) by (simp add: write_count_def)
  obtain x w1 where wr: "sys_write fd buf n w = (x, w1)" by (metis surj_pair)
  from wr wc fd(1) have x: "x = int n"
    and lg: "write_log w1 = \<lparr>w_fd = fd, w_count = n, w_ret = int n,
                            w_data = bytes_at (mem w) buf n\<rparr> # write_log w"
    and pr: "printed w1 = printed w"
    and other: "\<forall>x. x \<noteq> name \<longrightarrow> fs w1 x = fs w x"
    by (auto simp: sys_write_def Let_def fd(2))
  from sys_write_sink [OF assms(1) wr] lg
  have s: "sink_at name fd (data @ bytes_at (mem w) buf n) pm w1" "stdout w1 = stdout w"
    by simp_all
  from sys_write_effect [OF wr] assms(2)
  have e: "writes w1 = []" "mem w1 = mem w" "mask w1 = mask w" "denied w1 = denied w"
    "next_fd w1 = next_fd w" "freed w1 = freed w" "read_log w1 = read_log w" "stdin w1 = stdin w"
    "\<forall>x. x \<noteq> fd \<longrightarrow> fdt w1 x = fdt w x"
    by auto
  from wr x lg s e pr other show ?thesis by simp
qed

text \<open>
  The first call of \<^verbatim>\<open>store_file\<close> for a named output file, in an environment
  that accepts every write: the file is created with the mode \<^verbatim>\<open>0666\<close> under
  the mask 0, or emptied when it exists, and then holds the block.
\<close>

lemma store_file_first_all:
  assumes "ofile args = Some name" and "fd_out args = - 1"
    and "\<not> denied w name" and "1 < next_fd w" and "writes w = []"
  shows "\<exists>w'. store_file args buf m w = Inr (0, args\<lparr>fd_out := int (next_fd w)\<rparr>, w') \<and>
           sink_at name (int (next_fd w)) (bytes_at (mem w) buf (size_t_of m))
             (case fs w name of None \<Rightarrow> mode_0666 | Some f \<Rightarrow> perm f) w' \<and>
           mask w' = 0 \<and>
           write_log w' = \<lparr>w_fd = int (next_fd w), w_count = size_t_of m,
                            w_ret = int (size_t_of m),
                            w_data = bytes_at (mem w) buf (size_t_of m)\<rparr> # write_log w \<and>
           stdout w' = stdout w \<and> writes w' = [] \<and> mem w' = mem w \<and>
           denied w' = denied w \<and> next_fd w' = next_fd w + 1 \<and> freed w' = freed w \<and>
           read_log w' = read_log w \<and> stdin w' = stdin w \<and> printed w' = printed w \<and>
           (\<forall>x. x \<noteq> int (next_fd w) \<longrightarrow> fdt w' x = fdt w x) \<and>
           (\<forall>x. x \<noteq> name \<longrightarrow> fs w' x = fs w x)"
proof -
  define pm where "pm = (case fs w name of None \<Rightarrow> mode_0666 | Some f \<Rightarrow> perm f)"
  define w0 where "w0 = snd (sys_open_creat_trunc name mode_0666 (sys_umask 0 w))"
  have op: "sys_open_creat_trunc name mode_0666 (sys_umask 0 w) = (int (next_fd w), w0)"
    using assms(3) by (simp add: w0_def sys_open_creat_trunc_def sys_umask_def Let_def)
  have s0: "sink_at name (int (next_fd w)) [] pm w0"
    using assms(3,4)
    by (auto simp: w0_def sys_open_creat_trunc_def sys_umask_def Let_def sink_at_def pm_def
        split: option.splits)
  have m0: "mask w0 = 0" "next_fd w0 = next_fd w + 1" "write_log w0 = write_log w"
    "stdout w0 = stdout w" "writes w0 = writes w" "mem w0 = mem w" "denied w0 = denied w"
    "freed w0 = freed w" "read_log w0 = read_log w" "stdin w0 = stdin w" "printed w0 = printed w"
    "\<forall>x. x \<noteq> int (next_fd w) \<longrightarrow> fdt w0 x = fdt w x"
    "\<forall>x. x \<noteq> name \<longrightarrow> fs w0 x = fs w x"
    using assms(3) by (simp_all add: w0_def sys_open_creat_trunc_def sys_umask_def Let_def)
  from m0(5) assms(5) have "writes w0 = []" by simp
  from sys_write_sink_all [OF s0 this, of buf "size_t_of m"] obtain w1 where
    wr: "sys_write (int (next_fd w)) buf (size_t_of m) w0 = (int (size_t_of m), w1)"
    and e: "sink_at name (int (next_fd w)) ([] @ bytes_at (mem w0) buf (size_t_of m)) pm w1"
      "write_log w1 = \<lparr>w_fd = int (next_fd w), w_count = size_t_of m, w_ret = int (size_t_of m),
                            w_data = bytes_at (mem w0) buf (size_t_of m)\<rparr> # write_log w0"
      "stdout w1 = stdout w0" "writes w1 = []" "mem w1 = mem w0" "mask w1 = mask w0"
      "denied w1 = denied w0" "next_fd w1 = next_fd w0" "freed w1 = freed w0"
      "read_log w1 = read_log w0" "stdin w1 = stdin w0" "printed w1 = printed w0"
      "\<forall>x. x \<noteq> int (next_fd w) \<longrightarrow> fdt w1 x = fdt w0 x"
      "\<forall>x. x \<noteq> name \<longrightarrow> fs w1 x = fs w0 x"
    by blast
  have "store_file args buf m w = Inr (0, args\<lparr>fd_out := int (next_fd w)\<rparr>, w1)"
    using assms(1,2,4) op wr by (simp add: store_file_def)
  with e m0 show ?thesis
    unfolding pm_def [symmetric] by simp
qed

text \<open>A later call appends the block.\<close>

lemma store_file_next_all:
  assumes "ofile args = Some name" and "fd_out args \<noteq> - 1"
    and "sink_at name (fd_out args) data pm w" and "writes w = []"
  shows "\<exists>w'. store_file args buf m w = Inr (0, args, w') \<and>
           sink_at name (fd_out args) (data @ bytes_at (mem w) buf (size_t_of m)) pm w' \<and>
           mask w' = mask w \<and>
           write_log w' = \<lparr>w_fd = fd_out args, w_count = size_t_of m,
                            w_ret = int (size_t_of m),
                            w_data = bytes_at (mem w) buf (size_t_of m)\<rparr> # write_log w \<and>
           stdout w' = stdout w \<and> writes w' = [] \<and> mem w' = mem w \<and>
           denied w' = denied w \<and> next_fd w' = next_fd w \<and> freed w' = freed w \<and>
           read_log w' = read_log w \<and> stdin w' = stdin w \<and> printed w' = printed w \<and>
           (\<forall>x. x \<noteq> fd_out args \<longrightarrow> fdt w' x = fdt w x) \<and>
           (\<forall>x. x \<noteq> name \<longrightarrow> fs w' x = fs w x)"
proof -
  from sys_write_sink_all [OF assms(3,4), of buf "size_t_of m"] obtain w1 where
    wr: "sys_write (fd_out args) buf (size_t_of m) w = (int (size_t_of m), w1)"
    and e: "sink_at name (fd_out args) (data @ bytes_at (mem w) buf (size_t_of m)) pm w1"
      "write_log w1 = \<lparr>w_fd = fd_out args, w_count = size_t_of m, w_ret = int (size_t_of m),
                            w_data = bytes_at (mem w) buf (size_t_of m)\<rparr> # write_log w"
      "stdout w1 = stdout w" "writes w1 = []" "mem w1 = mem w" "mask w1 = mask w"
      "denied w1 = denied w" "next_fd w1 = next_fd w" "freed w1 = freed w"
      "read_log w1 = read_log w" "stdin w1 = stdin w" "printed w1 = printed w"
      "\<forall>x. x \<noteq> fd_out args \<longrightarrow> fdt w1 x = fdt w x"
      "\<forall>x. x \<noteq> name \<longrightarrow> fs w1 x = fs w x"
    by blast
  have "store_file args buf m w = Inr (0, args, w1)"
    using assms(1,2) wr by (simp add: store_file_def)
  with e show ?thesis by simp
qed

lemma read_input_printed:
  assumes "read_input buf m p w = (r, w')"
  shows "printed w' = printed w @ (if p then [] else [''Type the text to be encrypted: ''])"
proof -
  define w0 where "w0 = (if \<not> p then w\<lparr>printed := printed w @ [''Type the text to be encrypted: '']\<rparr> else w)"
  obtain b1 i1 w1 where run: "read_input_loop m p buf 0 w0 = (b1, i1, w1)"
    by (metis prod_cases3)
  with assms have r: "w' = w1"
    by (simp_all add: read_input_def w0_def [symmetric] Let_def)
  from read_input_loop_effect [OF run] have "printed w1 = printed w0" by auto
  with r show ?thesis by (simp add: w0_def)
qed

lemma sys_write_printed:
  assumes "sys_write fd buf n w = (r, w')"
  shows "printed w' = printed w"
proof (cases "write_count fd n w")
  case None
  with assms show ?thesis by (auto simp: sys_write_def)
next
  case (Some k)
  with assms show ?thesis by (cases "fd = 1") (auto simp: sys_write_def Let_def)
qed


subsection \<open>The blocks stored over a run\<close>




subsection \<open>Writes that fail and writes that are short\<close>











section \<open>The claims on the cipher\<close>

text \<open>
  C1.  With both allocations granted, a key of 1 to 256 bytes and an input
  block whose bytes are not overwritten before they are read, \<^verbatim>\<open>crypt_buffer\<close>
  returns 0 and leaves in the output buffer exactly the transform of the
  specification (working copy of the key, cursor from 0; per position: update
  the key byte at the cursor, emit input XOR that byte, advance the cursor
  modulo the key length), and the output has \<open>len\<close> bytes.
\<close>

theorem crypt_buffer_computes_transform:
  assumes "ctx_ok" and "key_ok"
    and "1 \<le> keylen ctx" and "keylen ctx \<le> 256"
    and "int len \<le> INT_MAX"
    and "\<forall>a b. a < b \<and> b < len \<longrightarrow> out + a \<noteq> inp + b"
  shows "\<exists>h'. crypt_buffer ctx_ok key_ok blk h ctx out inp len = Inr (0, h') \<and>
           bytes_at h' out len =
             transform (bytes_at h (key ctx) (nat (keylen ctx))) (bytes_at h inp len) \<and>
           length (bytes_at h' out len) = len"
  using crypt_buffer_refines [OF assms] by (simp add: length_bytes_at)

theorem crypt_buffer_computes_transform_witness:
  "\<exists>h'. crypt_buffer True True zero_block ab_memory ab_context 20 10 2 = Inr (0, h') \<and>
     bytes_at h' 20 2 = transform (bytes_at ab_memory 0 2) (bytes_at ab_memory 10 2) \<and>
     length (bytes_at h' 20 2) = 2 \<and>
     transform (bytes_at ab_memory 0 2) (bytes_at ab_memory 10 2) = [0, 2]"
proof -
  have sep: "\<forall>a b. a < b \<and> b < (2::nat) \<longrightarrow> (20::nat) + a \<noteq> 10 + b" by auto
  have val: "transform (bytes_at ab_memory 0 2) (bytes_at ab_memory 10 2) = [0, 2]"
    by (simp add: transform_def bytes_at_def ab_memory_def zero_memory_def upt_rec Let_def)
  show ?thesis
    using crypt_buffer_computes_transform
      [where ctx_ok = True and key_ok = True and ctx = ab_context and len = 2
         and out = 20 and inp = 10 and blk = zero_block and h = ab_memory, OF _ _ _ _ _ sep]
    by (simp add: ab_context_def INT_MAX_def val)
qed

text \<open>
  C2.  A key of 1 to 256 bytes, a stream \<open>P\<close> and a partition of \<open>P\<close> into
  blocks of the lengths \<open>ns\<close>: sending the blocks through \<^verbatim>\<open>crypt_buffer\<close> and
  sending the concatenated result through it again, cut at the same lengths,
  gives back \<open>P\<close>.  With the key \<^verbatim>\<open>"AB"\<close>, four zero bytes encrypted as one block
  and decrypted as two blocks of two bytes do not come back.
\<close>

theorem blockwise_round_trip:
  assumes "1 \<le> length K" and "length K \<le> 256"
    and "sum_list ns = length P" and "int (length P) \<le> INT_MAX"
  shows "(\<exists>cs. crypt_blocks K (split_blocks ns P) = Some cs \<and>
            length (concat cs) = length P \<and>
            (\<exists>ds. crypt_blocks K (split_blocks ns (concat cs)) = Some ds \<and> concat ds = P)) \<and>
         crypt_blocks [0x41, 0x42] (split_blocks [4] [0, 0, 0, 0]) = Some [[0x41, 0x43, 0x41, 0x44]] \<and>
         crypt_blocks [0x41, 0x42] (split_blocks [2, 2] (concat [[0x41, 0x43, 0x41, 0x44]]))
           = Some [[0, 0], [0, 7]] \<and>
         concat [[0, 0], [0, 7 :: u8]] \<noteq> [0, 0, 0, 0]"
proof -
  define bs where "bs = split_blocks ns P"
  define cs where "cs = map (transform K) bs"
  have small: "\<forall>b \<in> set bs. int (length b) \<le> INT_MAX"
    using length_in_split_blocks [of _ ns P] assms(4) by (fastforce simp: bs_def)
  have enc: "crypt_blocks K bs = Some cs"
    unfolding cs_def by (rule crypt_blocks_transform [OF assms(1,2) small])
  have lens: "map length cs = ns"
    by (simp add: cs_def bs_def length_transform length_split_blocks [OF assms(3)] comp_def)
  have cut: "split_blocks ns (concat cs) = cs"
    using split_blocks_concat [of cs] by (simp add: lens)
  have small': "\<forall>c \<in> set cs. int (length c) \<le> INT_MAX"
    using small by (simp add: cs_def length_transform)
  have dec: "crypt_blocks K cs = Some (map (transform K) cs)"
    by (rule crypt_blocks_transform [OF assms(1,2) small'])
  have inv: "map (transform K) cs = bs"
    by (simp add: cs_def transform_involution comp_def)
  have whole: "concat bs = P"
    unfolding bs_def by (rule concat_split_blocks [OF assms(3)])
  have "length (concat cs) = sum_list (map length cs)"
    by (simp add: length_concat)
  then have len: "length (concat cs) = length P"
    by (simp add: lens assms(3))
  have general: "\<exists>cs. crypt_blocks K (split_blocks ns P) = Some cs \<and>
            length (concat cs) = length P \<and>
            (\<exists>ds. crypt_blocks K (split_blocks ns (concat cs)) = Some ds \<and> concat ds = P)"
    using enc len dec inv whole cut unfolding bs_def [symmetric] by auto
  have one: "crypt_blocks [0x41, 0x42] (split_blocks [4] [0, 0, 0, 0]) = Some [[0x41, 0x43, 0x41, 0x44]]"
    by (simp add: crypt_call_transform INT_MAX_def transform_def Let_def)
  have two: "crypt_blocks [0x41, 0x42] (split_blocks [2, 2] (concat [[0x41, 0x43, 0x41, 0x44]]))
           = Some [[0, 0], [0, 7]]"
    by (simp add: crypt_call_transform INT_MAX_def transform_def Let_def)
  show ?thesis using general one two by simp
qed

theorem blockwise_round_trip_witness:
  "(\<exists>cs. crypt_blocks [0x41, 0x42] (split_blocks [1, 2] [1, 2, 3]) = Some cs \<and>
            length (concat cs) = length [1, 2, 3 :: u8] \<and>
            (\<exists>ds. crypt_blocks [0x41, 0x42] (split_blocks [1, 2] (concat cs)) = Some ds \<and>
                   concat ds = [1, 2, 3])) \<and>
   sum_list [1, 2] = length [1, 2, 3 :: u8]"
  using blockwise_round_trip [of "[0x41, 0x42]" "[1, 2]" "[1, 2, 3]"]
  by (simp add: INT_MAX_def)

text \<open>
  C3.  The known vector: with the key bytes 0x41, 0x42 and the input bytes
  0x41, 0x41, one call produces the output bytes 0x00, 0x02.
\<close>

theorem known_vector:
  assumes "ctx_ok" and "key_ok"
    and "keylen ctx = 2"
    and "bytes_at h (key ctx) 2 = [0x41, 0x42]"
    and "bytes_at h inp 2 = [0x41, 0x41]"
    and "out \<noteq> inp + 1"
  shows "\<exists>h'. crypt_buffer ctx_ok key_ok blk h ctx out inp 2 = Inr (0, h') \<and>
           bytes_at h' out 2 = [0x00, 0x02]"
proof -
  have sep: "\<forall>a b. a < b \<and> b < (2::nat) \<longrightarrow> out + a \<noteq> inp + b"
    using assms(6) by (auto simp: less_Suc_eq numeral_2_eq_2)
  have "transform [0x41, 0x42] [0x41, 0x41 :: u8] = [0x00, 0x02]"
    by (simp add: transform_def Let_def)
  with crypt_buffer_refines [where ctx = ctx and blk = blk and h = h, OF assms(1,2) _ _ _ sep] assms(3,4,5)
  show ?thesis by (simp add: INT_MAX_def)
qed

theorem known_vector_witness:
  "\<exists>h'. crypt_buffer True True zero_block ab_memory ab_context 20 10 2 = Inr (0, h') \<and>
     bytes_at h' 20 2 = [0x00, 0x02] \<and> bytes_at ab_memory 0 2 = [0x41, 0x42] \<and>
     bytes_at ab_memory 10 2 = [0x41, 0x41]"
proof -
  have k: "bytes_at ab_memory (key ab_context) 2 = [0x41, 0x42]"
    and p: "bytes_at ab_memory 10 2 = [0x41, 0x41]"
    by (simp_all add: bytes_at_def ab_memory_def ab_context_def zero_memory_def upt_rec)
  have l: "keylen ab_context = 2" by (simp add: ab_context_def)
  show ?thesis
    using known_vector [where out = 20 and blk = zero_block, OF TrueI TrueI l k p] k p
    by (simp add: ab_context_def)
qed

text \<open>
  C8 (amended).  A call that returns changes no byte outside the out
  buffer; the key bytes and the input buffer are therefore as before the call
  whenever the output buffer does not overlap them.  The working copy of the
  key is a block of its own, and the structure is only read.
\<close>

theorem crypt_buffer_writes_only_output:
  assumes "crypt_buffer ctx_ok key_ok blk h ctx out inp len = Inr (r, h')"
  shows "(\<forall>a. a \<notin> {out ..< out + len} \<longrightarrow> h' a = h a) \<and>
         ({key ctx ..< key ctx + n} \<inter> {out ..< out + len} = {} \<longrightarrow>
            bytes_at h' (key ctx) n = bytes_at h (key ctx) n) \<and>
         ({inp ..< inp + len} \<inter> {out ..< out + len} = {} \<longrightarrow>
            bytes_at h' inp len = bytes_at h inp len)"
proof -
  have frame: "\<And>a. a \<notin> {out ..< out + len} \<Longrightarrow> h' a = h a"
    by (rule crypt_buffer_frame [OF assms])
  have region: "bytes_at h' a m = bytes_at h a m"
    if "{a ..< a + m} \<inter> {out ..< out + len} = {}" for a m
  proof -
    have "h' (a + c) = h (a + c)" if "c < m" for c
    proof (rule frame)
      from \<open>c < m\<close> have "a + c \<in> {a ..< a + m}" by simp
      with \<open>{a ..< a + m} \<inter> {out ..< out + len} = {}\<close>
      show "a + c \<notin> {out ..< out + len}" by blast
    qed
    then show ?thesis by (simp add: bytes_at_def)
  qed
  from frame region show ?thesis by blast
qed

theorem crypt_buffer_writes_only_output_witness:
  "crypt_buffer True True zero_block ab_memory ab_context 20 10 2 = Inr (0, ab_memory(20 := 0, 21 := 2)) \<and>
   bytes_at (ab_memory(20 := 0, 21 := 2)) 0 2 = bytes_at ab_memory 0 2 \<and>
   bytes_at (ab_memory(20 := 0, 21 := 2)) 10 2 = bytes_at ab_memory 10 2 \<and>
   (ab_memory(20 := 0, 21 := 2)) 30 = ab_memory 30"
proof -
  have run: "crypt_buffer True True zero_block ab_memory ab_context 20 10 2 = Inr (0, ab_memory(20 := 0, 21 := 2))"
    by (simp add: crypt_buffer_def crypt_loop.simps ab_context_def ab_memory_def zero_memory_def
        zero_block_def INT_MAX_def c_rem_def Let_def)
  have k: "{key ab_context ..< key ab_context + 2} \<inter> {20 ..< 20 + (2::nat)} = {}"
    and p: "{10 ..< 10 + 2} \<inter> {20 ..< 20 + (2::nat)} = {}"
    and a: "(30::nat) \<notin> {20 ..< 20 + 2}"
    by (simp_all add: ab_context_def)
  from crypt_buffer_writes_only_output [where n = 2, OF run] k p a run
  show ?thesis by (simp add: ab_context_def)
qed

text \<open>
  The claim as stated fails for a call in place: with the output buffer at the
  address of the input buffer the input byte 0x41 is replaced by 0x00; and with
  the output buffer at the address of the key the key byte 0x41 is replaced.
\<close>

theorem crypt_buffer_in_place_counterexample:
  "crypt_buffer True True zero_block a_memory a_context 10 10 1 = Inr (0, a_memory(10 := 0)) \<and>
   bytes_at (a_memory(10 := 0)) 10 1 \<noteq> bytes_at a_memory 10 1 \<and>
   crypt_buffer True True zero_block a_memory a_context 0 10 1 = Inr (0, a_memory(0 := 0)) \<and>
   bytes_at (a_memory(0 := 0)) (key a_context) 1 \<noteq> bytes_at a_memory (key a_context) 1"
  by (simp add: crypt_buffer_def crypt_loop.simps a_context_def a_memory_def zero_memory_def
      zero_block_def INT_MAX_def c_rem_def bytes_at_def Let_def)

section \<open>The claims on the program\<close>

text \<open>
  C9.  \<^verbatim>\<open>read_input\<close> returns the number \<open>n\<close> of characters it stored; they are
  the first \<open>n\<close> characters of standard input, and no other byte of memory is
  changed.  In particular the byte after the stored characters keeps its
  value: no terminator is stored, although the comment on line 291 announces
  one (line 293 assigns to the pointer, not through it).
\<close>

theorem read_input_stores_no_terminator:
  assumes "read_input buf maxsize pipe w = (r, w')"
  shows "0 \<le> r \<and> nat r \<le> length (stdin w) \<and>
         bytes_at (mem w') buf (nat r) = take (nat r) (stdin w) \<and>
         (\<forall>a. a \<notin> {buf ..< buf + nat r} \<longrightarrow> mem w' a = mem w a) \<and>
         mem w' (buf + nat r) = mem w (buf + nat r)"
proof -
  from read_input_effect [OF assms] obtain n k pr where
    r: "r = int n" and n: "n \<le> k" "k \<le> length (stdin w)"
    and w': "w' = w\<lparr>printed := pr, stdin := drop k (stdin w),
                     mem := store_bytes (mem w) buf (take n (stdin w))\<rparr>"
    by blast
  have len: "length (take n (stdin w)) = n" using n by simp
  have m: "mem w' = store_bytes (mem w) buf (take n (stdin w))" by (simp add: w')
  have "bytes_at (mem w') buf n = take n (stdin w)"
    using bytes_at_store_bytes [of "mem w" buf "take n (stdin w)"] unfolding m len .
  moreover have "mem w' a = mem w a" if "a \<notin> {buf ..< buf + n}" for a
    using store_bytes_outside [of a buf "take n (stdin w)" "mem w"] that unfolding m len by blast
  ultimately show ?thesis using r n by simp
qed

theorem read_input_stores_no_terminator_witness:
  "read_input 2000 1024 True ab_input_world
     = (2, ab_input_world\<lparr>stdin := [], mem := zero_memory(2002 := 0x58, 2000 := 0x61, 2001 := 0x62)\<rparr>) \<and>
   bytes_at (zero_memory(2002 := 0x58, 2000 := 0x61, 2001 := 0x62)) 2000 3 = [0x61, 0x62, 0x58] \<and>
   mem ab_input_world 2002 = 0x58"
proof -
  have run: "read_input 2000 1024 True ab_input_world
     = (2, ab_input_world\<lparr>stdin := [], mem := zero_memory(2002 := 0x58, 2000 := 0x61, 2001 := 0x62)\<rparr>)"
    by (simp add: read_input_def read_input_loop.simps getchar_def EOF_def ab_input_world_def
        base_world_def Let_def)
  from read_input_stores_no_terminator [OF run]
  have "mem (ab_input_world\<lparr>stdin := [],
            mem := zero_memory(2002 := 0x58, 2000 := 0x61, 2001 := 0x62)\<rparr>) (2000 + nat 2)
        = mem ab_input_world (2000 + nat 2)"
    by blast
  then have "mem ab_input_world 2002 = 0x58" by simp
  with run show ?thesis
    by (simp add: bytes_at_def upt_rec)
qed




text \<open>
  C4.  On standard input (descriptor 0) a block that comes back shorter than
  \<^verbatim>\<open>MAX_INPUT_SIZE\<close> is no error: with a key of 1 to 256 bytes and the
  allocations granted, the block read is transformed, the result is handed to
  \<^verbatim>\<open>store_file\<close>, and the loop ends there, with 0 unless that write fails.
  With an environment that accepts every write the run returns 0, standard
  input is not read again, and the transformed block has reached the sink: on
  standard output, \<^verbatim>\<open>write\<close> has delivered exactly the block to descriptor 1
  (the only other text for that descriptor is the prompt that \<^verbatim>\<open>read_input\<close>
  prints when not in pipe mode); a named output file not yet opened holds
  exactly the block; one already open holds the block after what it held.
\<close>

theorem stdin_short_block_ends_run:
  assumes "fd_in args = 0" and "0 < remaining"
    and "load_file args 0 (ibuf args) (min remaining MAX_INPUT_SIZE) w = (nread, w1)"
    and "nread < MAX_INPUT_SIZE"
    and "1 \<le> keylen ctx" and "keylen ctx \<le> 256"
    and "set (take 2 (mallocs w)) \<subseteq> {True}"
    and "\<forall>a b. a < b \<and> b < nat nread \<longrightarrow> obuf args + a \<noteq> ibuf args + b"
  shows "\<exists>h2. call_crypt_buffer ctx (obuf args) (ibuf args) nread w1
                 = Inr (0, w1\<lparr>mallocs := drop 2 (mallocs w), mem := h2\<rparr>) \<and>
           bytes_at h2 (obuf args) (nat nread)
             = transform (bytes_at (mem w1) (key ctx) (nat (keylen ctx)))
                 (bytes_at (mem w1) (ibuf args) (nat nread)) \<and>
           main_loop ctx args remaining w
             = (case store_file args (obuf args) nread (w1\<lparr>mallocs := drop 2 (mallocs w), mem := h2\<rparr>) of
                  Inl f \<Rightarrow> Inl f
                | Inr (r, args', w3) \<Rightarrow>
                    if r < 0 then free_and_return args' (- EAGAIN) w3 else Inr (0, w3)) \<and>
           (ofile args = None \<and> writes w = [] \<longrightarrow>
              (\<exists>w3. main_loop ctx args remaining w = Inr (0, w3) \<and>
                 stdout w3 = stdout w @ transform (bytes_at (mem w1) (key ctx) (nat (keylen ctx)))
                                         (bytes_at (mem w1) (ibuf args) (nat nread)) \<and>
                 printed w3 = printed w @
                   (if ispipe args then [] else [''Type the text to be encrypted: '']) \<and>
                 stdin w3 = stdin w1 \<and> read_log w3 = read_log w)) \<and>
           (ofile args = Some name \<and> fd_out args = - 1 \<and> \<not> denied w name \<and> 1 < next_fd w \<and>
            writes w = [] \<longrightarrow>
              (\<exists>w3. main_loop ctx args remaining w = Inr (0, w3) \<and>
                 fs w3 name =
                   Some \<lparr>bytes = transform (bytes_at (mem w1) (key ctx) (nat (keylen ctx)))
                                   (bytes_at (mem w1) (ibuf args) (nat nread)),
                         perm = (case fs w name of None \<Rightarrow> mode_0666 | Some f \<Rightarrow> perm f)\<rparr> \<and>
                 (\<forall>x. x \<noteq> name \<longrightarrow> fs w3 x = fs w x) \<and>
                 stdout w3 = stdout w \<and> stdin w3 = stdin w1 \<and> read_log w3 = read_log w)) \<and>
           (ofile args = Some name \<and> fd_out args \<noteq> - 1 \<and> sink_at name (fd_out args) data pm w \<and>
            writes w = [] \<longrightarrow>
              (\<exists>w3. main_loop ctx args remaining w = Inr (0, w3) \<and>
                 fs w3 name =
                   Some \<lparr>bytes = data @ transform (bytes_at (mem w1) (key ctx) (nat (keylen ctx)))
                                          (bytes_at (mem w1) (ibuf args) (nat nread)),
                         perm = pm\<rparr> \<and>
                 (\<forall>x. x \<noteq> name \<longrightarrow> fs w3 x = fs w x) \<and>
                 stdout w3 = stdout w \<and> stdin w3 = stdin w1 \<and> read_log w3 = read_log w))"
proof -
  define block where "block = transform (bytes_at (mem w1) (key ctx) (nat (keylen ctx)))
                 (bytes_at (mem w1) (ibuf args) (nat nread))"
  from assms(3) have ri:
    "read_input (ibuf args) (min remaining MAX_INPUT_SIZE) (ispipe args) w = (nread, w1)"
    by (simp add: load_file_def)
  from read_input_effect [OF ri] obtain n k pr where
    n: "nread = int n"
    and w1: "w1 = w\<lparr>printed := pr, stdin := drop k (stdin w),
                     mem := store_bytes (mem w) (ibuf args) (take n (stdin w))\<rparr>"
    by blast
  have same: "mallocs w1 = mallocs w" "writes w1 = writes w" "stdout w1 = stdout w"
    "read_log w1 = read_log w" "fs w1 = fs w" "fdt w1 = fdt w" "denied w1 = denied w"
    "next_fd w1 = next_fd w"
    by (simp_all add: w1)
  note pr = read_input_printed [OF ri]
  have bound: "0 \<le> nread" "nread \<le> INT_MAX" "nread < 2 ^ 64"
    using n assms(4) by (simp_all add: MAX_INPUT_SIZE_def INT_MAX_def)
  have sz: "size_t_of nread = nat nread"
    using bound by (simp add: size_t_of_def)
  from call_crypt_buffer_transform [of ctx w1 nread "obuf args" "ibuf args"]
    assms(5,6,7,8) bound same
  obtain h2 where
    cb: "call_crypt_buffer ctx (obuf args) (ibuf args) nread w1
           = Inr (0, w1\<lparr>mallocs := drop 2 (mallocs w), mem := h2\<rparr>)"
    and tr: "bytes_at h2 (obuf args) (nat nread) = block"
    unfolding block_def by auto
  define w2 where "w2 = w1\<lparr>mallocs := drop 2 (mallocs w), mem := h2\<rparr>"
  have same2: "writes w2 = writes w" "stdout w2 = stdout w" "read_log w2 = read_log w"
    "fs w2 = fs w" "fdt w2 = fdt w" "denied w2 = denied w" "next_fd w2 = next_fd w"
    "stdin w2 = stdin w1" "printed w2 = printed w1" "mem w2 = h2"
    by (simp_all add: w2_def same)
  have blocks: "(if MAX_INPUT_SIZE < remaining then MAX_INPUT_SIZE else remaining)
                  = min remaining MAX_INPUT_SIZE"
    by (simp add: min_def)
  have step: "main_loop ctx args remaining w
      = (case store_file args (obuf args) nread w2 of
           Inl f \<Rightarrow> Inl f
         | Inr (r, args', w3) \<Rightarrow>
             if r < 0 then free_and_return args' (- EAGAIN) w3
             else if fd_in args' = 0 \<and> nread < MAX_INPUT_SIZE then Inr (0, w3)
             else main_loop ctx args' (remaining - min remaining MAX_INPUT_SIZE) w3)"
    using assms(1,2,3) cb
    by (subst main_loop.simps) (simp add: blocks w2_def del: min_less_iff_conj)
  have loop: "main_loop ctx args remaining w
      = (case store_file args (obuf args) nread w2 of
           Inl f \<Rightarrow> Inl f
         | Inr (r, args', w3) \<Rightarrow>
             if r < 0 then free_and_return args' (- EAGAIN) w3 else Inr (0, w3))"
  proof (cases "store_file args (obuf args) nread w2")
    case (Inl f)
    with step show ?thesis by simp
  next
    case (Inr res)
    obtain r args' w3 where res: "res = (r, args', w3)" by (metis prod_cases3)
    with Inr have "fd_in args' = 0"
      using store_file_keeps_fd_in [of args "obuf args" nread w2 r args' w3] assms(1) by simp
    with Inr res step assms(4) show ?thesis by simp
  qed
  have out: "\<exists>w3. main_loop ctx args remaining w = Inr (0, w3) \<and>
                 stdout w3 = stdout w @ block \<and>
                 printed w3 = printed w @
                   (if ispipe args then [] else [''Type the text to be encrypted: '']) \<and>
                 stdin w3 = stdin w1 \<and> read_log w3 = read_log w"
    if "ofile args = None \<and> writes w = []"
  proof -
    from that have t: "ofile args = None" "writes w2 = []" by (simp_all add: same2)
    obtain x w3 where wr: "sys_write 1 (obuf args) (nat nread) w2 = (x, w3)"
      by (metis surj_pair)
    from sys_write_all [OF t(2) wr] have x: "x = int (nat nread)"
      "stdout w3 = stdout w2 @ bytes_at (mem w2) (obuf args) (nat nread)"
      by simp_all
    from sys_write_printed [OF wr] have p3: "printed w3 = printed w2" .
    from sys_write_effect [OF wr] have e: "stdin w3 = stdin w2" "read_log w3 = read_log w2"
      by auto
    have "store_file args (obuf args) nread w2 = Inr (0, args, w3)"
      using t(1) wr x by (simp add: store_file_def sz)
    with loop x p3 e same2 tr pr show ?thesis by simp
  qed
  have first: "\<exists>w3. main_loop ctx args remaining w = Inr (0, w3) \<and>
                 fs w3 name =
                   Some \<lparr>bytes = block,
                         perm = (case fs w name of None \<Rightarrow> mode_0666 | Some f \<Rightarrow> perm f)\<rparr> \<and>
                 (\<forall>x. x \<noteq> name \<longrightarrow> fs w3 x = fs w x) \<and>
                 stdout w3 = stdout w \<and> stdin w3 = stdin w1 \<and> read_log w3 = read_log w"
    if "ofile args = Some name \<and> fd_out args = - 1 \<and> \<not> denied w name \<and> 1 < next_fd w \<and>
            writes w = []"
  proof -
    from that have t: "ofile args = Some name" "fd_out args = - 1" "\<not> denied w2 name"
      "1 < next_fd w2" "writes w2 = []"
      by (simp_all add: same2)
    from store_file_first_all [OF t, of "obuf args" nread] obtain w3 where
      st: "store_file args (obuf args) nread w2 = Inr (0, args\<lparr>fd_out := int (next_fd w2)\<rparr>, w3)"
      and s: "sink_at name (int (next_fd w2)) (bytes_at (mem w2) (obuf args) (size_t_of nread))
             (case fs w2 name of None \<Rightarrow> mode_0666 | Some f \<Rightarrow> perm f) w3"
      and e: "stdout w3 = stdout w2" "stdin w3 = stdin w2" "read_log w3 = read_log w2"
        "\<forall>x. x \<noteq> name \<longrightarrow> fs w3 x = fs w2 x"
      by blast
    from sink_at_file [OF s] st loop e same2 tr sz show ?thesis by simp
  qed
  have later: "\<exists>w3. main_loop ctx args remaining w = Inr (0, w3) \<and>
                 fs w3 name = Some \<lparr>bytes = data @ block, perm = pm\<rparr> \<and>
                 (\<forall>x. x \<noteq> name \<longrightarrow> fs w3 x = fs w x) \<and>
                 stdout w3 = stdout w \<and> stdin w3 = stdin w1 \<and> read_log w3 = read_log w"
    if "ofile args = Some name \<and> fd_out args \<noteq> - 1 \<and> sink_at name (fd_out args) data pm w \<and>
            writes w = []"
  proof -
    from that have t: "ofile args = Some name" "fd_out args \<noteq> - 1" "writes w2 = []"
      and s0: "sink_at name (fd_out args) data pm w"
      by (simp_all add: same2)
    from s0 have "sink_at name (fd_out args) data pm w2"
      by (rule sink_at_frame) (simp_all add: same2)
    from store_file_next_all [OF t(1,2) this t(3), of "obuf args" nread] obtain w3 where
      st: "store_file args (obuf args) nread w2 = Inr (0, args, w3)"
      and s: "sink_at name (fd_out args) (data @ bytes_at (mem w2) (obuf args) (size_t_of nread))
             pm w3"
      and e: "stdout w3 = stdout w2" "stdin w3 = stdin w2" "read_log w3 = read_log w2"
        "\<forall>x. x \<noteq> name \<longrightarrow> fs w3 x = fs w2 x"
      by blast
    from sink_at_file [OF s] st loop e same2 tr sz show ?thesis by simp
  qed
  show ?thesis
  proof (intro exI [of _ h2] conjI)
    show "call_crypt_buffer ctx (obuf args) (ibuf args) nread w1
            = Inr (0, w1\<lparr>mallocs := drop 2 (mallocs w), mem := h2\<rparr>)"
      by (rule cb)
    show "bytes_at h2 (obuf args) (nat nread)
             = transform (bytes_at (mem w1) (key ctx) (nat (keylen ctx)))
                 (bytes_at (mem w1) (ibuf args) (nat nread))"
      using tr unfolding block_def .
    show "main_loop ctx args remaining w
             = (case store_file args (obuf args) nread (w1\<lparr>mallocs := drop 2 (mallocs w), mem := h2\<rparr>) of
                  Inl f \<Rightarrow> Inl f
                | Inr (r, args', w3) \<Rightarrow>
                    if r < 0 then free_and_return args' (- EAGAIN) w3 else Inr (0, w3))"
      using loop unfolding w2_def .
    show "ofile args = None \<and> writes w = [] \<longrightarrow>
              (\<exists>w3. main_loop ctx args remaining w = Inr (0, w3) \<and>
                 stdout w3 = stdout w @ transform (bytes_at (mem w1) (key ctx) (nat (keylen ctx)))
                                         (bytes_at (mem w1) (ibuf args) (nat nread)) \<and>
                 printed w3 = printed w @
                   (if ispipe args then [] else [''Type the text to be encrypted: '']) \<and>
                 stdin w3 = stdin w1 \<and> read_log w3 = read_log w)"
      using out unfolding block_def by blast
    show "ofile args = Some name \<and> fd_out args = - 1 \<and> \<not> denied w name \<and> 1 < next_fd w \<and>
            writes w = [] \<longrightarrow>
              (\<exists>w3. main_loop ctx args remaining w = Inr (0, w3) \<and>
                 fs w3 name =
                   Some \<lparr>bytes = transform (bytes_at (mem w1) (key ctx) (nat (keylen ctx)))
                                   (bytes_at (mem w1) (ibuf args) (nat nread)),
                         perm = (case fs w name of None \<Rightarrow> mode_0666 | Some f \<Rightarrow> perm f)\<rparr> \<and>
                 (\<forall>x. x \<noteq> name \<longrightarrow> fs w3 x = fs w x) \<and>
                 stdout w3 = stdout w \<and> stdin w3 = stdin w1 \<and> read_log w3 = read_log w)"
      using first unfolding block_def by blast
    show "ofile args = Some name \<and> fd_out args \<noteq> - 1 \<and> sink_at name (fd_out args) data pm w \<and>
            writes w = [] \<longrightarrow>
              (\<exists>w3. main_loop ctx args remaining w = Inr (0, w3) \<and>
                 fs w3 name =
                   Some \<lparr>bytes = data @ transform (bytes_at (mem w1) (key ctx) (nat (keylen ctx)))
                                          (bytes_at (mem w1) (ibuf args) (nat nread)),
                         perm = pm\<rparr> \<and>
                 (\<forall>x. x \<noteq> name \<longrightarrow> fs w3 x = fs w x) \<and>
                 stdout w3 = stdout w \<and> stdin w3 = stdin w1 \<and> read_log w3 = read_log w)"
      using later unfolding block_def by blast
  qed
qed

theorem stdin_short_block_ends_run_witness:
  "fst (load_file aa_stdin_args 0 2000 1024 aa_stdin_world) = 2 \<and>
   transform (bytes_at (mem (snd (load_file aa_stdin_args 0 2000 1024 aa_stdin_world))) 1000 2)
     (bytes_at (mem (snd (load_file aa_stdin_args 0 2000 1024 aa_stdin_world))) 2000 2) = [0, 2] \<and>
   (\<exists>w3. main_loop kbuf_context aa_stdin_args INT_MAX aa_stdin_world = Inr (0, w3) \<and>
      stdout w3 = [0, 2] \<and> printed w3 = [] \<and> stdin w3 = [] \<and> read_log w3 = []) \<and>
   (\<exists>w3. main_loop kbuf_context out_file_args INT_MAX out_file_world = Inr (0, w3) \<and>
      fs w3 ''out'' = Some \<lparr>bytes = [0, 2], perm = 0x180\<rparr> \<and> stdout w3 = [] \<and> stdin w3 = []) \<and>
   (\<exists>w3. main_loop kbuf_context out_open_args INT_MAX out_open_world = Inr (0, w3) \<and>
      fs w3 ''out'' = Some \<lparr>bytes = [9, 9, 9, 9, 9, 0, 2], perm = 0x180\<rparr>) \<and>
   fs out_file_world ''out'' = Some \<lparr>bytes = [9, 9, 9, 9, 9], perm = 0x180\<rparr>"
proof -
  define wa where "wa = snd (load_file aa_stdin_args 0 2000 1024 aa_stdin_world)"
  define wb where "wb = snd (load_file out_file_args 0 2000 1024 out_file_world)"
  define wc where "wc = snd (load_file out_open_args 0 2000 1024 out_open_world)"
  have ra: "fst (load_file aa_stdin_args 0 2000 1024 aa_stdin_world) = 2"
    and ma: "mem wa = zero_memory(1000 := 0x41, 1001 := 0x42, 2000 := 0x41, 2001 := 0x41)"
    and sa: "stdin wa = []"
    unfolding wa_def
    by (simp_all add: aa_stdin_world_def aa_stdin_args_def read_input_def read_input_loop.simps
        load_file_def getchar_def EOF_def base_world_def base_args_def Let_def)
  have rb: "fst (load_file out_file_args 0 2000 1024 out_file_world) = 2"
    and mb: "mem wb = zero_memory(1000 := 0x41, 1001 := 0x42, 2000 := 0x41, 2001 := 0x41)"
    and sb: "stdin wb = []"
    unfolding wb_def
    by (simp_all add: out_file_world_def out_file_args_def aa_stdin_world_def aa_stdin_args_def
        read_input_def read_input_loop.simps
        load_file_def getchar_def EOF_def base_world_def base_args_def Let_def)
  have rc: "fst (load_file out_open_args 0 2000 1024 out_open_world) = 2"
    and mc: "mem wc = zero_memory(1000 := 0x41, 1001 := 0x42, 2000 := 0x41, 2001 := 0x41)"
    unfolding wc_def
    by (simp_all add: out_open_world_def out_open_args_def out_file_world_def out_file_args_def
        aa_stdin_world_def aa_stdin_args_def read_input_def read_input_loop.simps
        load_file_def getchar_def EOF_def base_world_def base_args_def Let_def)
  have ea: "load_file aa_stdin_args 0 (ibuf aa_stdin_args) (min INT_MAX MAX_INPUT_SIZE) aa_stdin_world
             = (2, wa)"
    using ra unfolding wa_def
    by (simp add: aa_stdin_args_def base_args_def INT_MAX_def MAX_INPUT_SIZE_def)
       (metis prod.collapse)
  have eb: "load_file out_file_args 0 (ibuf out_file_args) (min INT_MAX MAX_INPUT_SIZE) out_file_world
             = (2, wb)"
    using rb unfolding wb_def
    by (simp add: out_file_args_def aa_stdin_args_def base_args_def INT_MAX_def MAX_INPUT_SIZE_def)
       (metis prod.collapse)
  have ec: "load_file out_open_args 0 (ibuf out_open_args) (min INT_MAX MAX_INPUT_SIZE) out_open_world
             = (2, wc)"
    using rc unfolding wc_def
    by (simp add: out_open_args_def out_file_args_def aa_stdin_args_def base_args_def INT_MAX_def
        MAX_INPUT_SIZE_def)
       (metis prod.collapse)
  have sep: "\<forall>a b. a < b \<and> b < nat 2 \<longrightarrow> obuf aa_stdin_args + a \<noteq> ibuf aa_stdin_args + b"
    "\<forall>a b. a < b \<and> b < nat 2 \<longrightarrow> obuf out_file_args + a \<noteq> ibuf out_file_args + b"
    "\<forall>a b. a < b \<and> b < nat 2 \<longrightarrow> obuf out_open_args + a \<noteq> ibuf out_open_args + b"
    by (simp_all add: out_open_args_def out_file_args_def aa_stdin_args_def base_args_def)
  have t: "transform (bytes_at (mem wa) 1000 2) (bytes_at (mem wa) 2000 2) = [0, 2]"
    "transform (bytes_at (mem wb) 1000 2) (bytes_at (mem wb) 2000 2) = [0, 2]"
    "transform (bytes_at (mem wc) 1000 2) (bytes_at (mem wc) 2000 2) = [0, 2]"
    by (simp_all add: ma mb mc transform_def bytes_at_def zero_memory_def upt_0_2 Let_def)
  have h: "fd_in aa_stdin_args = 0" "fd_in out_file_args = 0" "fd_in out_open_args = 0"
    "(0::int) < INT_MAX" "(2::int) < MAX_INPUT_SIZE"
    "1 \<le> keylen kbuf_context" "keylen kbuf_context \<le> 256"
    "set (take 2 (mallocs aa_stdin_world)) \<subseteq> {True}"
    "set (take 2 (mallocs out_file_world)) \<subseteq> {True}"
    "set (take 2 (mallocs out_open_world)) \<subseteq> {True}"
    by (simp_all add: out_open_args_def out_open_world_def out_file_args_def out_file_world_def
        aa_stdin_args_def aa_stdin_world_def base_args_def base_world_def
        kbuf_context_def INT_MAX_def MAX_INPUT_SIZE_def)
  have k: "key kbuf_context = 1000" "nat (keylen kbuf_context) = 2" "ibuf aa_stdin_args = 2000"
    "ibuf out_file_args = 2000" "ibuf out_open_args = 2000"
    by (simp_all add: out_open_args_def out_file_args_def aa_stdin_args_def base_args_def
        kbuf_context_def)
  have oa: "ofile aa_stdin_args = None \<and> writes aa_stdin_world = []"
    "stdout aa_stdin_world = []" "read_log aa_stdin_world = []" "printed aa_stdin_world = []"
    "ispipe aa_stdin_args"
    by (simp_all add: aa_stdin_args_def aa_stdin_world_def base_args_def base_world_def)
  have ob: "ofile out_file_args = Some ''out'' \<and> fd_out out_file_args = - 1 \<and>
      \<not> denied out_file_world ''out'' \<and> 1 < next_fd out_file_world \<and> writes out_file_world = []"
    "stdout out_file_world = []"
    "fs out_file_world ''out'' = Some \<lparr>bytes = [9, 9, 9, 9, 9], perm = 0x180\<rparr>"
    by (simp_all add: out_file_args_def out_file_world_def aa_stdin_args_def aa_stdin_world_def
        base_args_def base_world_def)
  have oc: "ofile out_open_args = Some ''out'' \<and> fd_out out_open_args \<noteq> - 1 \<and>
      sink_at ''out'' (fd_out out_open_args) [9, 9, 9, 9, 9] 0x180 out_open_world \<and>
      writes out_open_world = []"
    by (simp add: out_open_args_def out_open_world_def out_file_args_def out_file_world_def
        aa_stdin_args_def aa_stdin_world_def base_args_def base_world_def sink_at_def)
  from stdin_short_block_ends_run [OF h(1,4) ea h(5,6,7,8) sep(1)] oa(1)
  obtain w3 where "main_loop kbuf_context aa_stdin_args INT_MAX aa_stdin_world = Inr (0, w3)"
    "stdout w3 = stdout aa_stdin_world @
       transform (bytes_at (mem wa) (key kbuf_context) (nat (keylen kbuf_context)))
         (bytes_at (mem wa) (ibuf aa_stdin_args) (nat 2))"
    "printed w3 = printed aa_stdin_world @
       (if ispipe aa_stdin_args then [] else [''Type the text to be encrypted: ''])"
    "stdin w3 = stdin wa" "read_log w3 = read_log aa_stdin_world"
    by blast
  with t sa oa k have one: "\<exists>w3. main_loop kbuf_context aa_stdin_args INT_MAX aa_stdin_world
        = Inr (0, w3) \<and>
      stdout w3 = [0, 2] \<and> printed w3 = [] \<and> stdin w3 = [] \<and> read_log w3 = []"
    by simp
  from stdin_short_block_ends_run
    [where name = "''out''", OF h(2,4) eb h(5,6,7,9) sep(2)] ob(1)
  obtain w3 where "main_loop kbuf_context out_file_args INT_MAX out_file_world = Inr (0, w3)"
    "fs w3 ''out'' =
       Some \<lparr>bytes = transform (bytes_at (mem wb) (key kbuf_context) (nat (keylen kbuf_context)))
                        (bytes_at (mem wb) (ibuf out_file_args) (nat 2)),
             perm = (case fs out_file_world ''out'' of None \<Rightarrow> mode_0666 | Some f \<Rightarrow> perm f)\<rparr>"
    "stdout w3 = stdout out_file_world" "stdin w3 = stdin wb"
    by blast
  with t sb ob k have two: "\<exists>w3. main_loop kbuf_context out_file_args INT_MAX out_file_world
        = Inr (0, w3) \<and>
      fs w3 ''out'' = Some \<lparr>bytes = [0, 2], perm = 0x180\<rparr> \<and> stdout w3 = [] \<and> stdin w3 = []"
    by simp
  from stdin_short_block_ends_run
    [where name = "''out''" and data = "[9, 9, 9, 9, 9]" and pm = "0x180",
     OF h(3,4) ec h(5,6,7,10) sep(3)] oc
  obtain w3 where "main_loop kbuf_context out_open_args INT_MAX out_open_world = Inr (0, w3)"
    "fs w3 ''out'' =
       Some \<lparr>bytes = [9, 9, 9, 9, 9] @
                transform (bytes_at (mem wc) (key kbuf_context) (nat (keylen kbuf_context)))
                  (bytes_at (mem wc) (ibuf out_open_args) (nat 2)),
             perm = 0x180\<rparr>"
    by blast
  with t k have three: "\<exists>w3. main_loop kbuf_context out_open_args INT_MAX out_open_world
        = Inr (0, w3) \<and>
      fs w3 ''out'' = Some \<lparr>bytes = [9, 9, 9, 9, 9, 0, 2], perm = 0x180\<rparr>"
    by simp
  from ra t(1) one two three ob(3) show ?thesis by (simp add: wa_def)
qed






text \<open>
  C10.  \<^verbatim>\<open>crypt_buffer\<close> does not check \<open>keylen\<close>.  Every call with
  \<open>keylen = 0\<close> and a length of at least 1 whose two allocations succeed divides
  by zero at the advance of the cursor, \<^verbatim>\<open>i = ++i % ctx->keylen\<close>; a call on a
  length of at least 1 that returns 0 had \<open>keylen\<close> at least 1.  The state is
  reached from \<^verbatim>\<open>main\<close>: with a key file that exists and is empty, the check
  "key wasn't supplied" passes, the loading of the key succeeds and leaves
  \<open>keylen = 0\<close>, and with at least one character to read on standard input the
  run ends in that division.
\<close>

theorem zero_keylen_divides_by_zero:
  "(keylen ctx = 0 \<and> 0 < len \<longrightarrow>
      crypt_buffer True True blk h ctx out inp len = Inl Division_By_Zero) \<and>
   ((\<exists>h'. crypt_buffer ctx_ok key_ok blk2 h2 ctx2 out2 inp2 len2 = Inr (0, h')) \<and> 0 < len2 \<longrightarrow>
      1 \<le> keylen ctx2) \<and>
   (kfile args = Some name \<and> name \<noteq> ''stdin'' \<and> fs w name = Some f \<and> bytes f = [] \<and>
    \<not> denied w name \<and> 0 < next_fd w \<longrightarrow>
      \<not> (args_keylen args = 0 \<and> kfile args = None) \<and>
      (\<exists>w1. main_load_key args w =
               Inr (0, args\<lparr>args_keylen := 0, fd_key := int (next_fd w)\<rparr>, w1)) \<and>
      (mallocs w = [] \<and> (ifile args = None \<or> ifile args = Some ''stdin'') \<and>
       (\<exists>c cs. stdin w = c # cs \<and> (ispipe args \<or> c \<noteq> 10)) \<longrightarrow>
         main args w = Inl Division_By_Zero))"
proof (intro conjI impI)
  assume "keylen ctx = 0 \<and> 0 < len"
  then show "crypt_buffer True True blk h ctx out inp len = Inl Division_By_Zero"
    by (intro crypt_buffer_zero_keylen) simp_all
next
  assume a: "(\<exists>h'. crypt_buffer ctx_ok key_ok blk2 h2 ctx2 out2 inp2 len2 = Inr (0, h')) \<and> 0 < len2"
  then obtain h' where r: "crypt_buffer ctx_ok key_ok blk2 h2 ctx2 out2 inp2 len2 = Inr (0, h')"
    by blast
  have ok: "ctx_ok" "key_ok" "\<not> keylen ctx2 < 0"
    using r by (auto simp: crypt_buffer_def ENOMEM_def split: if_splits)
  have "keylen ctx2 \<noteq> 0"
  proof
    assume "keylen ctx2 = 0"
    from crypt_buffer_zero_keylen [OF ok(1,2) this, of len2 blk2 h2 out2 inp2] a r
    show False by simp
  qed
  with ok(3) show "1 \<le> keylen ctx2" by simp
next
  assume "kfile args = Some name \<and> name \<noteq> ''stdin'' \<and> fs w name = Some f \<and> bytes f = [] \<and>
    \<not> denied w name \<and> 0 < next_fd w"
  then show "\<not> (args_keylen args = 0 \<and> kfile args = None)" by simp
next
  assume "kfile args = Some name \<and> name \<noteq> ''stdin'' \<and> fs w name = Some f \<and> bytes f = [] \<and>
    \<not> denied w name \<and> 0 < next_fd w"
  then have "kfile args = Some name" "name \<noteq> ''stdin''" "fs w name = Some f" "bytes f = []"
    "\<not> denied w name" "0 < next_fd w"
    by simp_all
  from main_load_key_empty_file [OF this]
  show "\<exists>w1. main_load_key args w =
               Inr (0, args\<lparr>args_keylen := 0, fd_key := int (next_fd w)\<rparr>, w1)"
    by blast
next
  assume "kfile args = Some name \<and> name \<noteq> ''stdin'' \<and> fs w name = Some f \<and> bytes f = [] \<and>
    \<not> denied w name \<and> 0 < next_fd w"
  then have k: "kfile args = Some name" "name \<noteq> ''stdin''" "fs w name = Some f" "bytes f = []"
    "\<not> denied w name" "0 < next_fd w"
    by simp_all
  assume "mallocs w = [] \<and> (ifile args = None \<or> ifile args = Some ''stdin'') \<and>
       (\<exists>c cs. stdin w = c # cs \<and> (ispipe args \<or> c \<noteq> 10))"
  then obtain c cs where i: "mallocs w = []" "ifile args = None \<or> ifile args = Some ''stdin''"
    "stdin w = c # cs" "ispipe args \<or> c \<noteq> 10"
    by blast
  from main_empty_key_file [OF k i] show "main args w = Inl Division_By_Zero" .
qed

theorem zero_keylen_divides_by_zero_witness:
  "crypt_buffer True True zero_block zero_memory \<lparr>key = 1000, keylen = 0\<rparr> 4000 2000 1
     = Inl Division_By_Zero \<and>
   (\<exists>h'. crypt_buffer True True zero_block ab_memory ab_context 20 10 2 = Inr (0, h')) \<and>
   1 \<le> keylen ab_context \<and>
   kfile empty_key_args = Some ''key'' \<and>
   fs empty_key_world ''key'' = Some \<lparr>bytes = [], perm = 0x1A4\<rparr> \<and>
   args_keylen empty_key_args = 0 \<and>
   (\<exists>w1. main_load_key empty_key_args empty_key_world =
            Inr (0, empty_key_args\<lparr>args_keylen := 0, fd_key := 3\<rparr>, w1)) \<and>
   stdin empty_key_world = [0x41] \<and>
   main empty_key_args empty_key_world = Inl Division_By_Zero"
proof -
  have "map_sum id fst (crypt_buffer True True zero_block ab_memory ab_context 20 10 2) = Inr 0"
    by (simp add: crypt_buffer_def crypt_loop.simps ab_context_def ab_memory_def zero_memory_def
        zero_block_def c_rem_def INT_MAX_def ENOMEM_def Let_def)
  then have e: "\<exists>h'. crypt_buffer True True zero_block ab_memory ab_context 20 10 2 = Inr (0, h')"
    by (cases "crypt_buffer True True zero_block ab_memory ab_context 20 10 2") auto
  have a: "kfile empty_key_args = Some ''key''" "args_keylen empty_key_args = 0"
    "ifile empty_key_args = Some ''stdin''" "ispipe empty_key_args"
    by (simp_all add: empty_key_args_def base_args_def)
  have b: "fs empty_key_world ''key'' = Some \<lparr>bytes = [], perm = 0x1A4\<rparr>"
    "\<not> denied empty_key_world ''key''" "next_fd empty_key_world = 3"
    "mallocs empty_key_world = []" "stdin empty_key_world = [0x41]"
    by (simp_all add: empty_key_world_def base_world_def)
  from zero_keylen_divides_by_zero
    [where ctx = "\<lparr>key = 1000, keylen = 0\<rparr>" and len = 1 and blk = zero_block
       and h = zero_memory and out = 4000 and inp = 2000
       and ctx_ok = True and key_ok = True and ?blk2.0 = zero_block and ?h2.0 = ab_memory
       and ?ctx2.0 = ab_context and ?out2.0 = 20 and ?inp2.0 = 10 and ?len2.0 = 2
       and args = empty_key_args and name = "''key''" and w = empty_key_world
       and f = "\<lparr>bytes = [], perm = 0x1A4\<rparr>"]
    e a b
  show ?thesis by simp
qed

end
